(* ===== verification/Cat_Base.thy ===== *)
theory Cat_Base
  imports Main "HOL-Library.Word"
begin

text \<open>
  What every component of the model shares: bytes, machine integers, the result type that
  records undefined behaviour and calls that never return, C strings and \<open>memcpy\<close> over explicit memory blocks, and the
  decimal conversion of \<open>printf\<close>.

  A memory block is the list of its bytes, so an access beyond the block is visible:
  it is \<open>Inl Out_of_bounds\<close>, never an unspecified value. A function of the program that can
  run into undefined behaviour, or that may wait for ever or be killed by a signal, returns
  \<open>'a res\<close>, and the theorems that it does none of this say that it returns \<open>Inr\<close>.
\<close>

unbundle bit_operations_syntax

named_theorems res_simps \<open>evaluation of results and of memory accesses\<close>

section \<open>Bytes and machine integers\<close>

type_synonym byte = char
type_synonym u8 = "8 word"
type_synonym u32 = "32 word"
type_synonym usize = "64 word"

abbreviation NUL :: byte where "NUL \<equiv> CHR 0x00"
abbreviation LF :: byte where "LF \<equiv> CHR 0x0A"
abbreviation CR :: byte where "CR \<equiv> CHR 0x0D"
abbreviation ESC :: byte where "ESC \<equiv> CHR 0x1B"

section \<open>Results\<close>

text \<open>Why a computation gives no value: undefined behaviour, or an end outside the program.\<close>

datatype ub =
    Null_deref          \<comment> \<open>a NULL pointer is dereferenced\<close>
  | Out_of_bounds       \<comment> \<open>a block is accessed outside its bounds\<close>
  | Uninit_read         \<comment> \<open>an automatic variable is read before it is written\<close>
  | Signed_overflow     \<comment> \<open>signed arithmetic leaves the range of its type\<close>
  | Use_after_free      \<comment> \<open>a released object is accessed or released again\<close>
  | Foreign_unlock      \<comment> \<open>a mutex is unlocked by a thread that does not hold it\<close>
  | Blocked             \<comment> \<open>a mutex is waited for that its holder never releases\<close>
  | Killed              \<comment> \<open>a signal that is not handled ends the process\<close>
  | Bad_argument        \<comment> \<open>a library function is given a value outside its domain\<close>

type_synonym 'a res = "ub + 'a"

definition rbind :: "'a res \<Rightarrow> ('a \<Rightarrow> 'b res) \<Rightarrow> 'b res" where
  "rbind m f = (case m of Inl e \<Rightarrow> Inl e | Inr x \<Rightarrow> f x)"

definition deref :: "'a option \<Rightarrow> 'a res" where
  "deref p = (case p of None \<Rightarrow> Inl Null_deref | Some x \<Rightarrow> Inr x)"

lemma rbind_Inl [simp, res_simps]: "rbind (Inl e) f = Inl e"
  by (simp add: rbind_def)

lemma rbind_Inr [simp, res_simps]: "rbind (Inr x) f = f x"
  by (simp add: rbind_def)

lemma rbind_eq_Inr: "(rbind m f = Inr y) = (\<exists>x. m = Inr x \<and> f x = Inr y)"
  by (simp add: rbind_def split: sum.splits)

lemma rbind_InrE [elim!]:
  assumes "rbind m f = Inr y"
  obtains x where "m = Inr x" and "f x = Inr y"
  using assms by (auto simp: rbind_eq_Inr)

lemma rbind_assoc: "rbind (rbind m f) g = rbind m (\<lambda>x. rbind (f x) g)"
  by (simp add: rbind_def split: sum.splits)

lemma rbind_cong [fundef_cong]:
  "m = m' \<Longrightarrow> (\<And>x. m' = Inr x \<Longrightarrow> f x = f' x) \<Longrightarrow> rbind m f = rbind m' f'"
  by (simp add: rbind_def split: sum.splits)

lemma deref_None [simp, res_simps]: "deref None = Inl Null_deref"
  by (simp add: deref_def)

lemma deref_Some [simp, res_simps]: "deref (Some x) = Inr x"
  by (simp add: deref_def)

lemma deref_eq_Inr [simp]: "deref p = Inr x \<longleftrightarrow> p = Some x"
  by (simp add: deref_def split: option.splits)

section \<open>Signed int\<close>

text \<open>
  \<open>int_ok\<close> is the range of a 32-bit \<open>int\<close>; \<open>to_int\<close> is the conversion of a wider integer to
  \<open>int\<close> (two's complement, as the supported compilers define it); \<open>ck_int\<close> is the result of an
  arithmetic operation on \<open>int\<close>, undefined outside the range.
\<close>

definition int_ok :: "int \<Rightarrow> bool" where
  "int_ok i \<longleftrightarrow> - (2 ^ 31) \<le> i \<and> i < 2 ^ 31"

definition to_int :: "int \<Rightarrow> int" where
  "to_int i = signed_take_bit 31 i"

definition ck_int :: "int \<Rightarrow> int res" where
  "ck_int i = (if int_ok i then Inr i else Inl Signed_overflow)"

lemma to_int_id: "int_ok i \<Longrightarrow> to_int i = i"
  unfolding int_ok_def to_int_def by (rule signed_take_bit_int_eq_self) auto

lemma int_ok_to_int: "int_ok (to_int i)"
  unfolding int_ok_def to_int_def
  using signed_take_bit_int_greater_eq_minus_exp [of 31 i] signed_take_bit_int_less_exp [of 31 i]
  by simp

lemma ck_int_Inr: "ck_int i = Inr j \<longleftrightarrow> i = j \<and> int_ok i"
  by (auto simp: ck_int_def)

section \<open>Memory blocks and C strings\<close>

definition ld :: "byte list \<Rightarrow> nat \<Rightarrow> byte res" where
  "ld m i = (if i < length m then Inr (m ! i) else Inl Out_of_bounds)"

definition st :: "byte list \<Rightarrow> nat \<Rightarrow> byte \<Rightarrow> byte list res" where
  "st m i c = (if i < length m then Inr (m[i := c]) else Inl Out_of_bounds)"

definition memcpy :: "byte list \<Rightarrow> byte list \<Rightarrow> nat \<Rightarrow> byte list res" where
  "memcpy dst src n =
     (if n \<le> length dst \<and> n \<le> length src then Inr (take n src @ drop n dst)
      else Inl Out_of_bounds)"

primrec cstrlen :: "byte list \<Rightarrow> nat res" where
  "cstrlen [] = Inl Out_of_bounds"
| "cstrlen (c # cs) = (if c = NUL then Inr 0 else rbind (cstrlen cs) (\<lambda>n. Inr (Suc n)))"

definition cstring :: "byte list \<Rightarrow> byte list res" where
  "cstring m = rbind (cstrlen m) (\<lambda>n. Inr (take n m))"

lemma ld_ok [simp, res_simps]: "i < length m \<Longrightarrow> ld m i = Inr (m ! i)"
  by (simp add: ld_def)

lemma st_ok [simp, res_simps]: "i < length m \<Longrightarrow> st m i c = Inr (m[i := c])"
  by (simp add: st_def)

lemma ld_Inr: "ld m i = Inr c \<longleftrightarrow> i < length m \<and> m ! i = c"
  by (auto simp: ld_def)

lemma st_Inr: "st m i c = Inr m' \<longleftrightarrow> i < length m \<and> m' = m[i := c]"
  by (auto simp: st_def)

lemma memcpy_ok [simp, res_simps]:
  "n \<le> length dst \<Longrightarrow> n \<le> length src \<Longrightarrow> memcpy dst src n = Inr (take n src @ drop n dst)"
  by (simp add: memcpy_def)

lemma memcpy_Inr:
  "memcpy dst src n = Inr m \<longleftrightarrow>
     n \<le> length dst \<and> n \<le> length src \<and> m = take n src @ drop n dst"
  by (auto simp: memcpy_def)

lemma memcpy_length: "memcpy dst src n = Inr m \<Longrightarrow> length m = length dst"
  by (auto simp: memcpy_Inr)

lemma cstrlen_append:
  "NUL \<notin> set s \<Longrightarrow> cstrlen (s @ NUL # r) = Inr (length s)"
  by (induction s) auto

lemma cstrlen_none: "NUL \<notin> set m \<Longrightarrow> cstrlen m = Inl Out_of_bounds"
  by (induction m) auto

lemma cstrlen_Inr_split:
  "cstrlen m = Inr n \<Longrightarrow> \<exists>s r. m = s @ NUL # r \<and> length s = n \<and> NUL \<notin> set s"
proof (induction m arbitrary: n)
  case Nil
  then show ?case by simp
next
  case (Cons c cs)
  show ?case
  proof (cases "c = NUL")
    case True
    with Cons.prems show ?thesis by (intro exI [of _ "[]"] exI [of _ cs]) auto
  next
    case False
    with Cons.prems obtain k where "cstrlen cs = Inr k" and n: "n = Suc k"
      by auto
    with Cons.IH obtain s r where "cs = s @ NUL # r" "length s = k" "NUL \<notin> set s"
      by blast
    with False n show ?thesis by (intro exI [of _ "c # s"] exI [of _ r]) auto
  qed
qed

lemma cstring_append: "NUL \<notin> set s \<Longrightarrow> cstring (s @ NUL # r) = Inr s"
  by (simp add: cstring_def cstrlen_append)

lemma cstring_none: "NUL \<notin> set m \<Longrightarrow> cstring m = Inl Out_of_bounds"
  by (simp add: cstring_def cstrlen_none)

lemma cstring_Inr_split: "cstring m = Inr s \<Longrightarrow> \<exists>r. m = s @ NUL # r \<and> NUL \<notin> set s"
  by (auto simp: cstring_def dest!: cstrlen_Inr_split)

section \<open>Decimal output\<close>

fun dec_nat :: "nat \<Rightarrow> string" where
  "dec_nat n = (if n < 10 then [char_of (48 + n)] else dec_nat (n div 10) @ [char_of (48 + n mod 10)])"

declare dec_nat.simps [simp del]

definition dec_int :: "int \<Rightarrow> string" where
  "dec_int i = (if i < 0 then CHR ''-'' # dec_nat (nat (- i)) else dec_nat (nat i))"

end
