(* ===== verification/Timespec.thy ===== *)
theory Timespec
  imports Cat_Base
begin

text \<open>
  Times: \<open>struct timespec\<close>, the difference used by \<open>cmd_devmgr.c\<close>, the deadline computed by
  \<open>sp_read\<close>, and the polling lock \<open>sub_mutex_timedlock\<close> of \<open>sockpush.c\<close>. Seconds and
  nanoseconds are signed 64-bit values; no clock comes near their range, so they are \<open>int\<close>.
\<close>

section \<open>Data\<close>

datatype timespec = Timespec (tv_sec: int) (tv_nsec: int)

text \<open>The comparison the code writes out: seconds first, then nanoseconds.\<close>

instantiation timespec :: linorder
begin

definition less_eq_timespec :: "timespec \<Rightarrow> timespec \<Rightarrow> bool" where
  "less_eq_timespec a b \<longleftrightarrow>
     tv_sec a < tv_sec b \<or> (tv_sec a = tv_sec b \<and> tv_nsec a \<le> tv_nsec b)"

definition less_timespec :: "timespec \<Rightarrow> timespec \<Rightarrow> bool" where
  "less_timespec a b \<longleftrightarrow>
     tv_sec a < tv_sec b \<or> (tv_sec a = tv_sec b \<and> tv_nsec a < tv_nsec b)"

instance
  by standard
    (auto simp: less_eq_timespec_def less_timespec_def intro: timespec.expand)

end

definition ns :: "timespec \<Rightarrow> int" where
  "ns t = tv_sec t * 1000000000 + tv_nsec t"

definition ts_valid :: "timespec \<Rightarrow> bool" where
  "ts_valid t \<longleftrightarrow> 0 \<le> tv_nsec t \<and> tv_nsec t < 1000000000"

lemma ns_le: "ts_valid a \<Longrightarrow> ts_valid b \<Longrightarrow> a \<le> b \<longleftrightarrow> ns a \<le> ns b"
  by (auto simp: ts_valid_def less_eq_timespec_def ns_def)

lemma ns_less: "ts_valid a \<Longrightarrow> ts_valid b \<Longrightarrow> a < b \<longleftrightarrow> ns a < ns b"
  by (auto simp: ts_valid_def less_timespec_def ns_def)

section \<open>Differences\<close>

definition diff_timespec :: "timespec \<Rightarrow> timespec \<Rightarrow> timespec" where
  "diff_timespec start finish =
     (if tv_nsec finish < tv_nsec start
      then Timespec (tv_sec finish - 1 - tv_sec start)
                    (1000000000 + tv_nsec finish - tv_nsec start)
      else Timespec (tv_sec finish - tv_sec start) (tv_nsec finish - tv_nsec start))"

text \<open>C integer division truncates towards zero.\<close>

definition c_quot :: "int \<Rightarrow> int \<Rightarrow> int" where
  "c_quot num den =
     (let q = \<bar>num\<bar> div \<bar>den\<bar> in if num < 0 \<longleftrightarrow> den < 0 then q else - q)"

lemma c_quot_nonneg: "0 < den \<Longrightarrow> 0 \<le> num \<Longrightarrow> c_quot num den = num div den"
  by (simp add: c_quot_def Let_def)

definition elapsed_ms :: "timespec \<Rightarrow> int" where
  "elapsed_ms t = tv_sec t * 1000 + c_quot (tv_nsec t) 1000000"

lemma elapsed_ms_ns: "ts_valid t \<Longrightarrow> elapsed_ms t = ns t div 1000000"
  by (simp add: elapsed_ms_def ts_valid_def ns_def c_quot_nonneg)

section \<open>The deadline of sp_read\<close>

text \<open>
  \<open>timeout_ms\<close> milliseconds from \<open>cur\<close>; the carry is taken when the nanoseconds exceed one
  second (\<open>sp_read\<close> compares with \<open>>\<close>).
\<close>

definition sp_deadline :: "nat \<Rightarrow> timespec \<Rightarrow> timespec" where
  "sp_deadline timeout cur =
     (let ts = Timespec (int (timeout div 1000)) (int ((timeout mod 1000) * 1000000));
          ts = Timespec (tv_sec ts) (tv_nsec ts + tv_nsec cur);
          ts = Timespec (tv_sec ts + tv_sec cur) (tv_nsec ts)
      in if tv_nsec ts > 1000000000
         then Timespec (tv_sec ts + 1) (tv_nsec ts - 1000000000)
         else ts)"

section \<open>The polling lock\<close>

definition lock_pause :: "timespec \<Rightarrow> timespec \<Rightarrow> timespec" where
  "lock_pause timeout cur =
     (let dur = Timespec (tv_sec timeout - tv_sec cur) (tv_nsec timeout - tv_nsec cur);
          dur = (if tv_nsec dur < 0 then Timespec (tv_sec dur - 1) (tv_nsec dur + 1000000000)
                 else dur)
      in if tv_sec dur \<noteq> 0 \<or> tv_nsec dur > 2000000 then Timespec 0 2000000 else dur)"

text \<open>
  \<open>trylock i\<close> is what the \<open>i\<close>-th \<open>pthread_mutex_trylock\<close> returns and \<open>clk i\<close> the \<open>i\<close>-th clock
  reading. The result is the code returned, with the pauses slept in between; \<open>None\<close> is a
  call that does not return.
\<close>

definition EBUSY :: int where "EBUSY = 16"

partial_function (option) sub_mutex_timedlock ::
    "(nat \<Rightarrow> int) \<Rightarrow> (nat \<Rightarrow> timespec) \<Rightarrow> timespec \<Rightarrow> nat \<Rightarrow> (int \<times> timespec list) option" where
  "sub_mutex_timedlock trylock clk timeout i =
     (let rc = trylock i in
      if rc = EBUSY then
        (let cur = clk i in
         if tv_sec cur > tv_sec timeout
            \<or> (tv_sec cur = tv_sec timeout \<and> tv_nsec cur \<ge> tv_nsec timeout)
         then Some (rc, [])
         else Option.bind (sub_mutex_timedlock trylock clk timeout (Suc i))
                (\<lambda>(rc, ds). Some (rc, lock_pause timeout cur # ds)))
      else Some (rc, []))"

section \<open>Properties\<close>

lemma ts_valid_diff:
  "ts_valid a \<Longrightarrow> ts_valid b \<Longrightarrow> ts_valid (diff_timespec a b)"
  by (auto simp: ts_valid_def diff_timespec_def)

lemma ns_diff: "ns (diff_timespec a b) = ns b - ns a"
  by (auto simp: ns_def diff_timespec_def algebra_simps)

text \<open>\<open>diff_timespec\<close> is exact: for clock readings (nanoseconds below one second) the
  difference is again in that form, it stands for exactly the nanoseconds between the readings,
  and the milliseconds that \<open>sub_devmgr_socket\<close> takes from it are those nanoseconds rounded
  down.\<close>

theorem diff_timespec_exact:
  assumes "ts_valid a" and "ts_valid b"
  shows "ts_valid (diff_timespec a b) \<and> ns (diff_timespec a b) = ns b - ns a
       \<and> elapsed_ms (diff_timespec a b) = (ns b - ns a) div 1000000"
  using assms by (simp add: ts_valid_diff ns_diff elapsed_ms_ns)

theorem diff_timespec_exact_witness:
  "ts_valid (Timespec 7 900000000) \<and> ts_valid (Timespec 9 100000000)
   \<and> elapsed_ms (diff_timespec (Timespec 7 900000000) (Timespec 9 100000000)) = 1200"
  using diff_timespec_exact [of "Timespec 7 900000000" "Timespec 9 100000000"]
  by (simp add: ts_valid_def ns_def)

text \<open>C29: the deadline of \<open>sp_read\<close> is exactly \<open>timeout_ms\<close> milliseconds after the clock
  reading, but it is not always a legal time: when the nanoseconds add up to exactly one second
  the carry is missed and \<open>tv_nsec\<close> is 1000000000, which \<open>pthread_cond_timedwait\<close> refuses.\<close>

theorem sp_deadline_exact:
  assumes "ts_valid cur"
  shows "ns (sp_deadline t cur) = ns cur + int t * 1000000
       \<and> (ts_valid (sp_deadline t cur)
          \<longleftrightarrow> int (t mod 1000) * 1000000 + tv_nsec cur \<noteq> 1000000000)"
proof -
  define q r where "q = int (t div 1000)" and "r = int (t mod 1000)"
  have t: "int t = q * 1000 + r"
    unfolding q_def r_def using div_mult_mod_eq [of t 1000] by linarith
  have r: "0 \<le> r" "r < 1000" by (simp_all add: r_def)
  obtain s n where cur: "cur = Timespec s n" by (cases cur)
  have "sp_deadline t cur =
      (if r * 1000000 + n > 1000000000 then Timespec (q + s + 1) (r * 1000000 + n - 1000000000)
       else Timespec (q + s) (r * 1000000 + n))"
    by (simp add: sp_deadline_def cur Let_def q_def r_def)
  then show ?thesis
    using assms r unfolding t cur ns_def ts_valid_def r_def [symmetric]
    by (simp split: if_splits) linarith
qed

theorem sp_deadline_exact_witness:
  "ts_valid (Timespec 10 500000000) \<and> \<not> ts_valid (sp_deadline 500 (Timespec 10 500000000))
   \<and> ns (sp_deadline 500 (Timespec 10 500000000)) = 11000000000"
  using sp_deadline_exact [of "Timespec 10 500000000" 500] by (simp add: ts_valid_def ns_def)

text \<open>While the deadline lies ahead, the pause of the polling lock is positive, at most two
  milliseconds, and never reaches beyond the deadline.\<close>

theorem lock_pause_bounds:
  assumes "ts_valid timeout" and "ts_valid cur" and "cur < timeout"
  shows "ts_valid (lock_pause timeout cur) \<and> 0 < ns (lock_pause timeout cur)
       \<and> ns (lock_pause timeout cur) \<le> 2000000
       \<and> ns cur + ns (lock_pause timeout cur) \<le> ns timeout"
  using assms
  by (cases timeout; cases cur)
     (auto simp: lock_pause_def ns_def ts_valid_def less_timespec_def Let_def)

theorem lock_pause_bounds_witness:
  "ns (Timespec 4 999500000) + ns (lock_pause (Timespec 5 0) (Timespec 4 999500000)) \<le> ns (Timespec 5 0)"
  using lock_pause_bounds [of "Timespec 5 0" "Timespec 4 999500000"]
  by (simp add: ts_valid_def less_timespec_def)

lemma timedlock_stop:
  "trylock i \<noteq> EBUSY \<or> timeout \<le> clk i \<Longrightarrow>
   sub_mutex_timedlock trylock clk timeout i = Some (trylock i, [])"
  by (subst sub_mutex_timedlock.simps) (auto simp: Let_def less_eq_timespec_def)

lemma timedlock_poll:
  "trylock i = EBUSY \<Longrightarrow> clk i < timeout \<Longrightarrow>
   sub_mutex_timedlock trylock clk timeout i =
     Option.bind (sub_mutex_timedlock trylock clk timeout (Suc i))
       (\<lambda>(rc, ds). Some (rc, lock_pause timeout (clk i) # ds))"
  by (subst sub_mutex_timedlock.simps) (auto simp: Let_def less_timespec_def)

text \<open>The polling lock returns as soon as an attempt is not \<open>EBUSY\<close> or the clock has
  reached the deadline, with the code of that attempt, after one pause for every earlier
  attempt. So it returns whenever the clock reaches the deadline.\<close>

theorem sub_mutex_timedlock_spec:
  assumes "\<And>j. i \<le> j \<Longrightarrow> j < k \<Longrightarrow> trylock j = EBUSY \<and> clk j < timeout"
    and "i \<le> k" and "trylock k \<noteq> EBUSY \<or> timeout \<le> clk k"
  shows "sub_mutex_timedlock trylock clk timeout i =
         Some (trylock k, map (\<lambda>j. lock_pause timeout (clk j)) [i..<k])"
  using assms(2,1)
proof (induction rule: inc_induct)
  case base
  show ?case using timedlock_stop [of trylock k timeout clk] assms(3) by simp
next
  case (step n)
  then have "sub_mutex_timedlock trylock clk timeout (Suc n) =
      Some (trylock k, map (\<lambda>j. lock_pause timeout (clk j)) [Suc n..<k])" by simp
  with step show ?case by (simp add: timedlock_poll upt_conv_Cons)
qed

theorem sub_mutex_timedlock_spec_witness:
  "sub_mutex_timedlock (\<lambda>i. if i < 2 then EBUSY else 0) (\<lambda>i. Timespec (int i) 0) (Timespec 60 0) 0
     = Some (0, [Timespec 0 2000000, Timespec 0 2000000])"
proof -
  have "[0..<2] = [0, Suc 0]" by (simp add: upt_conv_Cons)
  then show ?thesis
    using sub_mutex_timedlock_spec [of 0 2 "\<lambda>i. if i < 2 then EBUSY else 0"
        "\<lambda>i. Timespec (int i) 0" "Timespec 60 0"]
    by (simp add: lock_pause_def less_timespec_def EBUSY_def)
qed

end
