(* ===== verification/Sockpush.thy ===== *)
theory Sockpush
  imports Timespec
begin

text \<open>
  The socket client of \<open>main/sockpush.c\<close>, as its callers use it: opening and closing with the
  resources they acquire and release, the synchronous readers, writing, dispatch to
  subscribers, and the publication of a received line. The I/O thread that assembles the lines
  is in \<open>Sockpush_IO\<close>, the interleaving of the two threads in \<open>Sockpush_Threads\<close>.

  There is one \<open>sp_item_t\<close>; the state \<open>sp_world\<close> holds it with the heap cells of the readers
  and with what has left through the socket. What the operating system decides (results of
  \<open>write\<close>, allocation, clock, what the I/O thread does meanwhile) comes from the environment
  record \<open>sp_env\<close>, one value per call, numbered by the counters of the state.
\<close>

section \<open>Data\<close>

definition UNIX_PATH_MAX :: nat where "UNIX_PATH_MAX = 104"
definition SP_MAX_READERS :: usize where "SP_MAX_READERS = 1"
definition SP_MAX_SUBSCRIBERS :: usize where "SP_MAX_SUBSCRIBERS = 1"
definition SP_SUB_OUTBOUND :: u32 where "SP_SUB_OUTBOUND = 2"
definition SP_SUB_INBOUND :: u32 where "SP_SUB_INBOUND = 1"

datatype sp_handle_t = SP_NULL | SP_ITEM

record sprdr_t =
  parent :: sp_handle_t
  last_read :: u32

record spsubscr_t =
  sub_flags :: u32
  action :: bool                      \<comment> \<open>the callback pointer is not NULL\<close>
  sub_buf :: "byte list option"
  sub_max :: nat

record sp_item_t =
  sun_path :: "byte list"
  sp_id :: int
  sp_flags :: u32
  fd_sock :: int
  read_buf :: "byte list option"
  read_size :: nat
  read_id :: u32
  readline_inactive :: bool
  readdone_inactive :: bool
  readers :: usize
  max_readers :: usize
  waiting_readers :: usize
  reader_slots :: "nat option list"   \<comment> \<open>\<open>reader[SP_MAX_READERS]\<close>, the addresses stored\<close>
  subs :: usize
  max_subs :: usize
  sub_slots :: "spsubscr_t option list"

definition sp_calloc :: sp_item_t where
  "sp_calloc = \<lparr>
     sun_path = [], sp_id = 0, sp_flags = 0, fd_sock = 0,
     read_buf = None, read_size = 0, read_id = 0,
     readline_inactive = False, readdone_inactive = False,
     readers = 0, max_readers = 0, waiting_readers = 0,
     reader_slots = replicate (unat SP_MAX_READERS) None,
     subs = 0, max_subs = 0,
     sub_slots = replicate (unat SP_MAX_SUBSCRIBERS) None\<rparr>"

section \<open>Opening and closing\<close>

text \<open>
  The ledger of a handle: which of its resources exist. Destroying a mutex or condition that
  does not exist is an error of the model; \<open>close\<close> of a descriptor that is not open only
  fails. \<open>sp_close\<close> unlocks the three mutexes before it destroys them, whoever holds them:
  POSIX leaves the unlocking of a mutex that the caller does not hold undefined. Whether the
  platform takes it as an unlock without further effect is an argument of \<open>sp_close\<close>.
\<close>

datatype resource =
    R_mem | R_fd | R_user_mutex | R_readline_mutex | R_readline_cond
  | R_readdone_mutex | R_readdone_cond | R_thread

definition release :: "resource \<Rightarrow> resource set \<Rightarrow> resource set res" where
  "release r live =
     (if r \<in> live then Inr (live - {r})
      else if r = R_fd then Inr live
      else Inl Use_after_free)"

primrec release_all :: "resource list \<Rightarrow> resource set \<Rightarrow> resource set res" where
  "release_all [] live = Inr live"
| "release_all (r # rs) live = rbind (release r live) (release_all rs)"

record open_env =
  calloc_addr :: "nat option"
  stat_rc :: int
  is_sock :: bool
  socket_fd :: int
  user_mutex_rc :: int
  readline_mutex_rc :: int
  readline_cond_rc :: int
  readdone_mutex_rc :: int
  readdone_cond_rc :: int
  thread_rc :: int

text \<open>The \<open>switch\<close> of \<open>sp_open_ERR\<close>: its labels in order, each with what it releases; control
  enters at the label of the error and falls through to the end.\<close>

definition sp_open_labels :: "(int \<times> resource list) list" where
  "sp_open_labels =
     [(-11, [R_readdone_cond]), (-10, [R_readdone_mutex]), (-9, [R_readline_cond]),
      (-8, [R_readline_mutex]), (-7, []), (-6, [R_user_mutex]), (-5, [R_fd]),
      (-4, []), (-3, [R_mem])]"

definition sp_open_ERR ::
    "int \<Rightarrow> resource set \<Rightarrow> (int \<times> sp_item_t option \<times> resource set) res" where
  "sp_open_ERR rc live =
     rbind (release_all (concat (map snd (dropWhile (\<lambda>(l, _). l \<noteq> rc) sp_open_labels))) live)
       (\<lambda>live. Inr (rc, None, live))"

definition sp_open ::
    "open_env \<Rightarrow> bool \<Rightarrow> byte list option \<Rightarrow> u32 \<Rightarrow> resource set
     \<Rightarrow> (int \<times> sp_item_t option \<times> resource set) res" where
  "sp_open e handle_null socket_path flags live =
     (if handle_null \<or> socket_path = None then Inr (-1, None, live)
      else case calloc_addr e of None \<Rightarrow> Inr (-2, None, live)
      | Some new_sp \<Rightarrow>
        (let live = insert R_mem live;
             sp = sp_calloc\<lparr>fd_sock := -1, max_readers := SP_MAX_READERS,
                            max_subs := SP_MAX_SUBSCRIBERS\<rparr>
         in if stat_rc e \<noteq> 0 then sp_open_ERR (-3) live
         else if \<not> is_sock e then sp_open_ERR (-3) live
         else
           (let sp = sp\<lparr>fd_sock := socket_fd e\<rparr>;
                live = (if 0 \<le> socket_fd e then insert R_fd live else live)
            in if new_sp < 0 then sp_open_ERR (-4) live
            else
              (let sp = sp\<lparr>sun_path := take (UNIX_PATH_MAX - 1) (the socket_path)\<rparr>
               in if user_mutex_rc e \<noteq> 0 then sp_open_ERR (-5) live
               else let live = insert R_user_mutex live
               in if readline_mutex_rc e \<noteq> 0 then sp_open_ERR (-7) live
               else let live = insert R_readline_mutex live
               in if readline_cond_rc e \<noteq> 0 then sp_open_ERR (-8) live
               else let live = insert R_readline_cond live
               in if readdone_mutex_rc e \<noteq> 0 then sp_open_ERR (-9) live
               else let live = insert R_readdone_mutex live
               in if readdone_cond_rc e \<noteq> 0 then sp_open_ERR (-10) live
               else let live = insert R_readdone_cond live
               in if thread_rc e \<noteq> 0 then sp_open_ERR (-11) live
               else Inr (0, Some sp, insert R_thread live)))))"

definition foreign_unlock :: "bool \<Rightarrow> resource \<Rightarrow> resource set \<Rightarrow> resource set res" where
  "foreign_unlock unlock_ok r live =
     (if r \<notin> live then Inl Use_after_free
      else if unlock_ok then Inr live else Inl Foreign_unlock)"

definition sp_close ::
    "int \<Rightarrow> bool \<Rightarrow> sp_handle_t \<Rightarrow> resource set \<Rightarrow> (int \<times> resource set) res" where
  "sp_close cancel_rc unlock_ok handle live =
     (if handle = SP_NULL then Inr (-1, live)
      else if cancel_rc \<noteq> 0 then Inr (-2, live)
      else rbind (release_all [R_thread, R_readdone_cond] live) (\<lambda>live.
           rbind (foreign_unlock unlock_ok R_readdone_mutex live) (\<lambda>live.
           rbind (release_all [R_readdone_mutex, R_readline_cond] live) (\<lambda>live.
           rbind (foreign_unlock unlock_ok R_readline_mutex live) (\<lambda>live.
           rbind (release R_readline_mutex live) (\<lambda>live.
           rbind (foreign_unlock unlock_ok R_user_mutex live) (\<lambda>live.
           rbind (release_all [R_user_mutex, R_fd, R_mem] live) (\<lambda>live.
           Inr (0, live)))))))))"

section \<open>State and environment of the operations\<close>

record sp_world =
  item :: sp_item_t
  rdr_cells :: "nat \<rightharpoonup> sprdr_t"
  rdr_next :: nat                       \<comment> \<open>the next address \<open>talloc\<close> returns\<close>
  sock_out :: "byte list"               \<comment> \<open>the bytes the socket has accepted\<close>
  sub_calls :: "(byte list \<times> nat) list" \<comment> \<open>calls of subscriber callbacks\<close>
  n_write :: nat
  n_alloc :: nat
  n_read :: nat

text \<open>
  What happens around one \<open>sp_read\<close>: the real-time clock at its start, the lines the I/O
  thread publishes since the last operation and before the lock is tried, whether the lock is
  free, the lines published between the look at the buffer and the wait, the line published
  during the wait (the I/O thread blocks on it until the reader is done, so there is at most
  one), and whether the wait nevertheless reports its time-out.
\<close>

record rd_event =
  ev_now :: timespec
  ev_before :: "byte list list"
  ev_lock :: bool
  ev_missed :: "byte list list"
  ev_during :: "byte list option"
  ev_late :: bool

text \<open>
  The environment: the result of each \<open>write\<close>, \<open>None\<close> when the peer has closed the connection,
  so that the signal \<open>SIGPIPE\<close> ends the process (the program does not handle it); whether each
  allocation succeeds; the event of each read; and, after so many reads, whether the user mutex
  is free or becomes free when a call locks it. It may never become free: the I/O thread keeps
  it while it waits for a reader, which can be for ever (\<open>threads_deadlock\<close>). Only a line that
  arrives while a reader waits makes it wait, so the answer can change with a read only.
\<close>

record sp_env =
  os_write :: "nat \<Rightarrow> byte list \<Rightarrow> int option"
  os_alloc :: "nat \<Rightarrow> bool"
  os_user :: "nat \<Rightarrow> bool"
  os_event :: "nat \<Rightarrow> rd_event"

abbreviation upd_item :: "(sp_item_t \<Rightarrow> sp_item_t) \<Rightarrow> 'a sp_world_scheme \<Rightarrow> 'a sp_world_scheme" where
  "upd_item f w \<equiv> w\<lparr>item := f (item w)\<rparr>"

definition EINVAL :: int where "EINVAL = 22"
definition ETIMEDOUT :: int where "ETIMEDOUT = 110"

text \<open>\<open>pthread_mutex_lock(&sp->user_mutex)\<close>; the calls unlock it on every path.\<close>

definition user_lock :: "sp_env \<Rightarrow> 'a sp_world_scheme \<Rightarrow> unit res" where
  "user_lock E w = (if os_user E (n_read w) then Inr () else Inl Blocked)"

lemma user_lock_ok [simp, res_simps]: "os_user E (n_read w) \<Longrightarrow> user_lock E w = Inr ()"
  by (simp add: user_lock_def)

section \<open>Subscribers\<close>

definition sub_sendtosub ::
    "spsubscr_t \<Rightarrow> byte list \<Rightarrow> nat \<Rightarrow> (spsubscr_t \<times> (byte list \<times> nat) list) res" where
  "sub_sendtosub sub data datasize =
     (let datasize = (if datasize > sub_max sub then sub_max sub else datasize) in
      rbind (case sub_buf sub of
               None \<Rightarrow> Inr (sub, data)
             | Some b \<Rightarrow> rbind (memcpy b data datasize) (\<lambda>b'. Inr (sub\<lparr>sub_buf := Some b'\<rparr>, b')))
        (\<lambda>(sub, data). Inr (sub, if action sub then [(data, datasize)] else [])))"

text \<open>The dispatch loop over the subscribers \<open>i\<close>, \<open>i + 1\<close>, \dots with the given direction flag.\<close>

function sp_dispatch ::
    "u32 \<Rightarrow> byte list \<Rightarrow> nat \<Rightarrow> nat \<Rightarrow> 'a sp_world_scheme \<Rightarrow> 'a sp_world_scheme res" where
  "sp_dispatch flag data datasize i w =
     (if i < unat (subs (item w)) then
        (if i < length (sub_slots (item w)) then
           rbind (deref (sub_slots (item w) ! i)) (\<lambda>s.
           if sub_flags s AND flag \<noteq> 0 then
             rbind (sub_sendtosub s data datasize) (\<lambda>(s', calls).
               sp_dispatch flag data datasize (Suc i)
                 ((upd_item (\<lambda>sp. sp\<lparr>sub_slots := (sub_slots sp)[i := Some s']\<rparr>) w)
                    \<lparr>sub_calls := sub_calls w @ calls\<rparr>))
           else sp_dispatch flag data datasize (Suc i) w)
         else Inl Out_of_bounds)
      else Inr w)"
  by pat_completeness auto
termination
  by (relation "measure (\<lambda>(flag, data, n, i, w). unat (subs (item w)) - i)") auto

declare sp_dispatch.simps [simp del]

definition sp_subscribe ::
    "sp_handle_t \<Rightarrow> bool \<Rightarrow> u32 \<Rightarrow> byte list option \<Rightarrow> nat \<Rightarrow> 'a sp_world_scheme
     \<Rightarrow> int \<times> 'a sp_world_scheme" where
  "sp_subscribe handle act flags buf maxsize w = (-1, w)"

section \<open>Readers\<close>

definition sp_reader_create ::
    "sp_env \<Rightarrow> sp_handle_t \<Rightarrow> 'a sp_world_scheme \<Rightarrow> (nat option \<times> 'a sp_world_scheme) res" where
  "sp_reader_create E handle w =
     (if handle \<noteq> SP_NULL then
        (if readers (item w) < max_readers (item w) then
           rbind (user_lock E w) (\<lambda>_.
           (let ok = os_alloc E (n_alloc w); w = w\<lparr>n_alloc := Suc (n_alloc w)\<rparr> in
            if ok then
              (let a = rdr_next w;
                   w = w\<lparr>rdr_next := Suc a,
                         rdr_cells := (rdr_cells w)
                           (a \<mapsto> \<lparr>parent = handle, last_read = read_id (item w)\<rparr>)\<rparr>;
                   k = unat (readers (item w))
               in if k < length (reader_slots (item w)) then
                    Inr (Some a, upd_item (\<lambda>sp. sp\<lparr>reader_slots := (reader_slots sp)[k := Some a],
                                                   readers := readers sp + 1\<rparr>) w)
                  else Inl Out_of_bounds)
            else Inr (None, w)))
         else Inr (None, w))
      else Inr (None, w))"

definition rdr_cell :: "'a sp_world_scheme \<Rightarrow> nat \<Rightarrow> sprdr_t res" where
  "rdr_cell w a = (case rdr_cells w a of None \<Rightarrow> Inl Use_after_free | Some r \<Rightarrow> Inr r)"

definition sp_reader_destroy ::
    "sp_env \<Rightarrow> nat option \<Rightarrow> 'a sp_world_scheme \<Rightarrow> 'a sp_world_scheme res" where
  "sp_reader_destroy E reader w =
     (case reader of None \<Rightarrow> Inr w
      | Some a \<Rightarrow>
          rbind (rdr_cell w a) (\<lambda>_.
          rbind (user_lock E w) (\<lambda>_.
          Inr ((upd_item (\<lambda>sp. sp\<lparr>readers := readers sp - 1\<rparr>) w)
                 \<lparr>rdr_cells := (rdr_cells w)(a := None)\<rparr>))))"

definition sp_reader_purge ::
    "sp_env \<Rightarrow> nat option \<Rightarrow> 'a sp_world_scheme \<Rightarrow> 'a sp_world_scheme res" where
  "sp_reader_purge E reader w =
     (case reader of None \<Rightarrow> Inr w
      | Some a \<Rightarrow>
          rbind (rdr_cell w a) (\<lambda>r.
          rbind (user_lock E w) (\<lambda>_.
          Inr (w\<lparr>rdr_cells := (rdr_cells w)(a \<mapsto> r\<lparr>last_read := read_id (item w)\<rparr>)\<rparr>))))"

section \<open>Publishing a line\<close>

text \<open>
  What the I/O thread does with a complete line, \<open>cursor\<close> bytes at the start of \<open>readbuf\<close>, under
  the user mutex: number it, copy it to the shared buffer, hand it to the inbound subscribers,
  and wake a waiting reader.
\<close>

definition sp_wake_readers :: "sp_item_t \<Rightarrow> sp_item_t" where
  "sp_wake_readers sp =
     (if readers sp > 0 then
        (if waiting_readers sp \<le> 0 then sp
         else sp\<lparr>readline_inactive := False, readdone_inactive := True\<rparr>)
      else sp)"

definition sp_publish ::
    "byte list \<Rightarrow> nat \<Rightarrow> 'a sp_world_scheme \<Rightarrow> 'a sp_world_scheme res" where
  "sp_publish readbuf cursor w =
     (let w = upd_item (\<lambda>sp. sp\<lparr>read_id := read_id sp + 1, read_size := cursor\<rparr>) w in
      rbind (deref (read_buf (item w))) (\<lambda>b.
      rbind (memcpy b readbuf (read_size (item w))) (\<lambda>b'.
      let w = upd_item (\<lambda>sp. sp\<lparr>read_buf := Some b'\<rparr>) w in
      rbind (sp_dispatch SP_SUB_INBOUND b' (read_size (item w)) 0 w) (\<lambda>w.
      Inr (upd_item sp_wake_readers w)))))"

primrec sp_publish_all ::
    "byte list list \<Rightarrow> 'a sp_world_scheme \<Rightarrow> 'a sp_world_scheme res" where
  "sp_publish_all [] w = Inr w"
| "sp_publish_all (f # fs) w = rbind (sp_publish f (length f) w) (sp_publish_all fs)"

section \<open>Reading\<close>

definition sub_loadread ::
    "nat \<Rightarrow> byte list \<Rightarrow> nat \<Rightarrow> 'a sp_world_scheme \<Rightarrow> (int \<times> byte list \<times> 'a sp_world_scheme) res" where
  "sub_loadread rdr readbuf readmax w =
     rbind (rdr_cell w rdr) (\<lambda>r.
     let w = w\<lparr>rdr_cells := (rdr_cells w)(rdr \<mapsto> r\<lparr>last_read := read_id (item w)\<rparr>)\<rparr>;
         readmax = (if readmax > read_size (item w) then read_size (item w) else readmax)
     in rbind (if readmax = 0 then Inr readbuf
               else rbind (deref (read_buf (item w))) (\<lambda>b. memcpy readbuf b readmax))
          (\<lambda>readbuf. Inr (to_int (int readmax), readbuf, w)))"

text \<open>The code with which the waiting loop ends: an invalid deadline is refused at once, and the
  loop ends with 0 only when a line has been announced.\<close>

definition sp_wait_test :: "timespec \<Rightarrow> rd_event \<Rightarrow> int" where
  "sp_wait_test ts ev =
     (if \<not> ts_valid ts then EINVAL
      else if ev_during ev = None \<or> ev_late ev then ETIMEDOUT else 0)"

definition sp_read_wait ::
    "timespec \<Rightarrow> rd_event \<Rightarrow> nat \<Rightarrow> byte list \<Rightarrow> nat \<Rightarrow> 'a sp_world_scheme
     \<Rightarrow> (int \<times> byte list \<times> 'a sp_world_scheme) res" where
  "sp_read_wait ts ev rdr readbuf readmax w =
     (let w = upd_item (\<lambda>sp. sp\<lparr>waiting_readers := waiting_readers sp + 1,
                                readline_inactive := True\<rparr>) w
      in rbind (case ev_during ev of
                  None \<Rightarrow> Inr w
                | Some f \<Rightarrow> if ts_valid ts then sp_publish f (length f) w else Inr w) (\<lambda>w.
         rbind (if sp_wait_test ts ev = 0 then sub_loadread rdr readbuf readmax w
                else Inr (0, readbuf, w)) (\<lambda>(rc, readbuf, w).
         let w = upd_item (\<lambda>sp. sp\<lparr>waiting_readers := waiting_readers sp -
                   (if waiting_readers sp \<noteq> 0 then 1 else 0)\<rparr>) w;
             w = (if waiting_readers (item w) = 0
                  then upd_item (\<lambda>sp. sp\<lparr>readdone_inactive := False\<rparr>) w else w)
         in Inr (rc, readbuf, w))))"

definition sp_read ::
    "sp_env \<Rightarrow> nat option \<Rightarrow> byte list option \<Rightarrow> nat \<Rightarrow> nat \<Rightarrow> 'a sp_world_scheme
     \<Rightarrow> (int \<times> byte list option \<times> 'a sp_world_scheme) res" where
  "sp_read E reader readbuf readmax timeout w =
     (case reader of None \<Rightarrow> Inr (-1, readbuf, w)
      | Some rdr \<Rightarrow>
        (case readbuf of None \<Rightarrow> Inr (0, readbuf, w)
         | Some buf \<Rightarrow>
           if readmax = 0 then Inr (0, readbuf, w)
           else
             (let ev = os_event E (n_read w); w = w\<lparr>n_read := Suc (n_read w)\<rparr>;
                  ts = sp_deadline timeout (ev_now ev)
              in rbind (sp_publish_all (ev_before ev) w) (\<lambda>w.
                 rbind (rdr_cell w rdr) (\<lambda>r.
                 rbind (if ev_lock ev \<and> last_read r \<noteq> read_id (item w)
                        then sub_loadread rdr buf readmax w
                        else Inr (0, buf, w)) (\<lambda>(rc, buf, w).
                 rbind (if rc = 0
                        then rbind (sp_publish_all (ev_missed ev) w)
                               (sp_read_wait ts ev rdr buf readmax)
                        else Inr (rc, buf, w)) (\<lambda>(rc, buf, w).
                 Inr (rc, Some buf, w))))))))"

section \<open>Writing\<close>

definition sp_oswrite ::
    "sp_env \<Rightarrow> byte list \<Rightarrow> 'a sp_world_scheme \<Rightarrow> (int \<times> 'a sp_world_scheme) res" where
  "sp_oswrite E data w =
     (case os_write E (n_write w) data of
        None \<Rightarrow> Inl Killed
      | Some r \<Rightarrow>
          Inr (r, w\<lparr>n_write := Suc (n_write w), sock_out := sock_out w @ take (nat r) data\<rparr>))"

definition sub_write ::
    "sp_env \<Rightarrow> byte list \<Rightarrow> nat \<Rightarrow> bool \<Rightarrow> 'a sp_world_scheme \<Rightarrow> (int \<times> 'a sp_world_scheme) res" where
  "sub_write E writebuf writesize do_terminate w =
     rbind (user_lock E w) (\<lambda>_.
     if length writebuf < writesize then Inl Out_of_bounds
     else
       rbind (sp_oswrite E (take writesize writebuf) w) (\<lambda>(rc, w).
       if rc < 0 then Inr (-2, w)
       else
         rbind (if do_terminate then sp_oswrite E [LF] w else Inr (rc, w)) (\<lambda>(rc, w).
         rbind (if subs (item w) > 0
                then sp_dispatch SP_SUB_OUTBOUND writebuf (nat (rc mod 2 ^ 64)) 0 w
                else Inr w) (\<lambda>w.
         Inr (rc, w)))))"

definition sp_write ::
    "sp_env \<Rightarrow> sp_handle_t \<Rightarrow> byte list option \<Rightarrow> nat \<Rightarrow> 'a sp_world_scheme
     \<Rightarrow> (int \<times> 'a sp_world_scheme) res" where
  "sp_write E handle writebuf writesize w =
     (if handle = SP_NULL then Inr (-1, w)
      else case writebuf of None \<Rightarrow> Inr (0, w)
      | Some buf \<Rightarrow>
          if writesize = 0 then Inr (0, w) else sub_write E buf writesize False w)"

definition sp_sendcmd ::
    "sp_env \<Rightarrow> sp_handle_t \<Rightarrow> byte list option \<Rightarrow> nat \<Rightarrow> 'a sp_world_scheme
     \<Rightarrow> (int \<times> 'a sp_world_scheme) res" where
  "sp_sendcmd E handle writebuf writesize w =
     (if handle = SP_NULL then Inr (-1, w)
      else case writebuf of None \<Rightarrow> Inr (0, w)
      | Some buf \<Rightarrow>
          if writesize = 0 then Inr (0, w)
          else rbind (ld buf (writesize - 1)) (\<lambda>c.
               sub_write E buf writesize (c \<noteq> LF) w))"

end
