(* ===== verification/Sockpush_Threads.thy ===== *)
theory Sockpush_Threads
  imports Sockpush
begin

text \<open>
  The two threads around a handle of \<open>sockpush.c\<close>, interleaved: the I/O thread, which publishes
  lines, and the client, which creates and destroys its reader, reads and writes. A move is one
  operation on a mutex or condition variable, or the statements between two of them; the mutexes
  have owners, and condition variables may wake without cause. What is proved: the mutexes
  protect what they are meant to, so that the shared line is never read while it is written; the
  announcement of a line can be lost between the two condition variables, and then both threads
  are blocked for ever; and that is the only way in which they can block each other.

  The data of the handle is reduced to the line counter; the contents of lines, connection and
  cancellation are in \<open>Sockpush\<close>, \<open>Sockpush_Read\<close> and \<open>Sockpush_IO\<close>.
\<close>

section \<open>Program counters and state\<close>

datatype tid = T_io | T_cl

text \<open>The I/O thread, by the line it executes next.\<close>

datatype th_io =
    I_read            \<comment> \<open>594: reading bytes up to the end of a line\<close>
  | I_lock_user       \<comment> \<open>608\<close>
  | I_publish         \<comment> \<open>609 to 626\<close>
  | I_lock_line       \<comment> \<open>627\<close>
  | I_test            \<comment> \<open>628 to 634\<close>
  | I_lock_done       \<comment> \<open>636 and 637\<close>
  | I_done_test       \<comment> \<open>638\<close>
  | I_wait            \<comment> \<open>639, asleep\<close>
  | I_relock          \<comment> \<open>639, awake and without the mutex\<close>
  | I_unlock_user     \<comment> \<open>646\<close>

text \<open>The calls of the client that take the user mutex for a short section.\<close>

datatype cl_op = Op_create | Op_destroy | Op_purge | Op_write

text \<open>The client; \<open>True\<close> is a wait that has timed out.\<close>

datatype th_cl =
    C_idle
  | C_lock_user cl_op   \<comment> \<open>341, 365, 378, 492\<close>
  | C_in_user cl_op     \<comment> \<open>the section up to 352, 367, 380, 513\<close>
  | C_try               \<comment> \<open>435\<close>
  | C_look              \<comment> \<open>436 to 439\<close>
  | C_lock_line         \<comment> \<open>454\<close>
  | C_enter             \<comment> \<open>455 to 457\<close>
  | C_test bool         \<comment> \<open>458 and 461\<close>
  | C_wait              \<comment> \<open>459, asleep\<close>
  | C_relock bool       \<comment> \<open>459, awake and without the mutex\<close>
  | C_load              \<comment> \<open>462\<close>
  | C_leave             \<comment> \<open>464 to 468\<close>
  | C_lock_done         \<comment> \<open>469\<close>
  | C_signal            \<comment> \<open>470 to 472\<close>

record threads =
  t_io :: th_io
  t_cl :: th_cl
  m_user :: "tid option"
  m_line :: "tid option"
  m_done :: "tid option"
  t_read_id :: u32
  t_last_read :: u32
  t_readers :: nat
  t_waiting :: nat
  t_line_inactive :: bool
  t_done_inactive :: bool

definition t_start :: threads where
  "t_start = \<lparr>t_io = I_read, t_cl = C_idle, m_user = None, m_line = None, m_done = None,
     t_read_id = 1, t_last_read = 0, t_readers = 0, t_waiting = 0, t_line_inactive = True,
     t_done_inactive = False\<rparr>"

section \<open>Moves\<close>

text \<open>The I/O thread, \<open>None\<close> while it is blocked.\<close>

definition io_go :: "threads \<Rightarrow> threads option" where
  "io_go s =
     (case t_io s of
        I_read \<Rightarrow> Some (s\<lparr>t_io := I_lock_user\<rparr>)
      | I_lock_user \<Rightarrow>
          if m_user s = None then Some (s\<lparr>m_user := Some T_io, t_io := I_publish\<rparr>) else None
      | I_publish \<Rightarrow>
          Some (s\<lparr>t_read_id := t_read_id s + 1,
                  t_io := (if t_readers s > 0 then I_lock_line else I_unlock_user)\<rparr>)
      | I_lock_line \<Rightarrow>
          if m_line s = None then Some (s\<lparr>m_line := Some T_io, t_io := I_test\<rparr>) else None
      | I_test \<Rightarrow>
          if t_waiting s \<le> 0 then Some (s\<lparr>m_line := None, t_io := I_unlock_user\<rparr>)
          else Some (s\<lparr>t_line_inactive := False,
                       t_cl := (if t_cl s = C_wait then C_relock False else t_cl s),
                       m_line := None, t_io := I_lock_done\<rparr>)
      | I_lock_done \<Rightarrow>
          if m_done s = None
          then Some (s\<lparr>m_done := Some T_io, t_done_inactive := True, t_io := I_done_test\<rparr>) else None
      | I_done_test \<Rightarrow>
          if t_done_inactive s then Some (s\<lparr>m_done := None, t_io := I_wait\<rparr>)
          else Some (s\<lparr>m_done := None, t_io := I_unlock_user\<rparr>)
      | I_wait \<Rightarrow> None
      | I_relock \<Rightarrow>
          if m_done s = None then Some (s\<lparr>m_done := Some T_io, t_io := I_done_test\<rparr>) else None
      | I_unlock_user \<Rightarrow> Some (s\<lparr>m_user := None, t_io := I_read\<rparr>))"

text \<open>The section of a call under the user mutex.\<close>

fun op_section :: "cl_op \<Rightarrow> threads \<Rightarrow> threads" where
  "op_section Op_create s = s\<lparr>t_last_read := t_read_id s, t_readers := t_readers s + 1\<rparr>"
| "op_section Op_destroy s = s\<lparr>t_readers := t_readers s - 1\<rparr>"
| "op_section Op_purge s = s\<lparr>t_last_read := t_read_id s\<rparr>"
| "op_section Op_write s = s"

definition cl_go :: "threads \<Rightarrow> threads option" where
  "cl_go s =
     (case t_cl s of
        C_idle \<Rightarrow> None
      | C_lock_user p \<Rightarrow>
          if m_user s = None then Some (s\<lparr>m_user := Some T_cl, t_cl := C_in_user p\<rparr>) else None
      | C_in_user p \<Rightarrow> Some ((op_section p s)\<lparr>m_user := None, t_cl := C_idle\<rparr>)
      | C_try \<Rightarrow>
          if m_user s = None then Some (s\<lparr>m_user := Some T_cl, t_cl := C_look\<rparr>)
          else Some (s\<lparr>t_cl := C_lock_line\<rparr>)
      | C_look \<Rightarrow>
          if t_last_read s \<noteq> t_read_id s
          then Some (s\<lparr>t_last_read := t_read_id s, m_user := None, t_cl := C_idle\<rparr>)
          else Some (s\<lparr>m_user := None, t_cl := C_lock_line\<rparr>)
      | C_lock_line \<Rightarrow>
          if m_line s = None then Some (s\<lparr>m_line := Some T_cl, t_cl := C_enter\<rparr>) else None
      | C_enter \<Rightarrow>
          Some (s\<lparr>t_waiting := t_waiting s + 1, t_line_inactive := True, t_cl := C_test False\<rparr>)
      | C_test late \<Rightarrow>
          if t_line_inactive s \<and> \<not> late then Some (s\<lparr>m_line := None, t_cl := C_wait\<rparr>)
          else if \<not> late then Some (s\<lparr>t_cl := C_load\<rparr>)
          else Some (s\<lparr>t_cl := C_leave\<rparr>)
      | C_wait \<Rightarrow> None
      | C_relock late \<Rightarrow>
          if m_line s = None then Some (s\<lparr>m_line := Some T_cl, t_cl := C_test late\<rparr>) else None
      | C_load \<Rightarrow> Some (s\<lparr>t_last_read := t_read_id s, t_cl := C_leave\<rparr>)
      | C_leave \<Rightarrow>
          (let k = t_waiting s - (if t_waiting s \<noteq> 0 then 1 else 0) in
           Some (s\<lparr>t_waiting := k, m_line := None, t_cl := (if k = 0 then C_lock_done else C_idle)\<rparr>))
      | C_lock_done \<Rightarrow>
          if m_done s = None then Some (s\<lparr>m_done := Some T_cl, t_cl := C_signal\<rparr>) else None
      | C_signal \<Rightarrow>
          Some (s\<lparr>t_done_inactive := False, t_io := (if t_io s = I_wait then I_relock else t_io s),
                  m_done := None, t_cl := C_idle\<rparr>))"

datatype move =
    Io_go | Io_wake             \<comment> \<open>a spurious wake-up\<close>
  | Cl_go | Cl_wake | Cl_late   \<comment> \<open>a spurious wake-up, a time-out\<close>
  | Cl_call cl_op | Cl_read     \<comment> \<open>the client starts a call\<close>

text \<open>Reading, purging and destroying need a reader, and there is at most one.\<close>

fun may_call :: "cl_op \<Rightarrow> threads \<Rightarrow> bool" where
  "may_call Op_create s = (t_readers s = 0)"
| "may_call Op_destroy s = (0 < t_readers s)"
| "may_call Op_purge s = (0 < t_readers s)"
| "may_call Op_write s = True"

fun t_move :: "move \<Rightarrow> threads \<Rightarrow> threads option" where
  "t_move Io_go s = io_go s"
| "t_move Io_wake s = (if t_io s = I_wait then Some (s\<lparr>t_io := I_relock\<rparr>) else None)"
| "t_move Cl_go s = cl_go s"
| "t_move Cl_wake s = (if t_cl s = C_wait then Some (s\<lparr>t_cl := C_relock False\<rparr>) else None)"
| "t_move Cl_late s = (if t_cl s = C_wait then Some (s\<lparr>t_cl := C_relock True\<rparr>) else None)"
| "t_move (Cl_call p) s =
     (if t_cl s = C_idle \<and> may_call p s then Some (s\<lparr>t_cl := C_lock_user p\<rparr>) else None)"
| "t_move Cl_read s =
     (if t_cl s = C_idle \<and> 0 < t_readers s then Some (s\<lparr>t_cl := C_try\<rparr>) else None)"

inductive t_step :: "threads \<Rightarrow> threads \<Rightarrow> bool" where
  io: "t_move Io_go s = Some s' \<Longrightarrow> t_step s s'"
| io_wake: "t_move Io_wake s = Some s' \<Longrightarrow> t_step s s'"
| cl: "t_move Cl_go s = Some s' \<Longrightarrow> t_step s s'"
| cl_wake: "t_move Cl_wake s = Some s' \<Longrightarrow> t_step s s'"
| cl_late: "t_move Cl_late s = Some s' \<Longrightarrow> t_step s s'"
| call: "t_move (Cl_call p) s = Some s' \<Longrightarrow> t_step s s'"
| read: "t_move Cl_read s = Some s' \<Longrightarrow> t_step s s'"

inductive_cases t_stepE: "t_step s s'"

inductive reachable :: "threads \<Rightarrow> bool" where
  start: "reachable t_start"
| step: "reachable s \<Longrightarrow> t_step s s' \<Longrightarrow> reachable s'"

lemma move_step: "t_move mv s = Some s' \<Longrightarrow> t_step s s'"
  by (cases mv) (auto intro: t_step.intros)

lemma t_step_iff: "t_step s s' \<longleftrightarrow> (\<exists>mv. t_move mv s = Some s')"
proof
  show "t_step s s' \<Longrightarrow> \<exists>mv. t_move mv s = Some s'"
    by (induction rule: t_step.induct) blast+
qed (blast intro: move_step)

primrec t_run :: "move list \<Rightarrow> threads \<Rightarrow> threads option" where
  "t_run [] s = Some s"
| "t_run (mv # mvs) s = Option.bind (t_move mv s) (t_run mvs)"

lemma reachable_run: "t_run mvs s = Some s' \<Longrightarrow> reachable s \<Longrightarrow> reachable s'"
proof (induction mvs arbitrary: s)
  case (Cons mv mvs)
  from Cons.prems(1) obtain x where "t_move mv s = Some x" "t_run mvs x = Some s'"
    by (auto split: bind_splits)
  with Cons.IH Cons.prems(2) show ?case by (blast intro: reachable.step move_step)
qed simp

lemma run_steps: "t_run mvs s = Some s' \<Longrightarrow> t_step\<^sup>*\<^sup>* s s'"
proof (induction mvs arbitrary: s)
  case (Cons mv mvs)
  from Cons.prems obtain x where "t_move mv s = Some x" "t_run mvs x = Some s'"
    by (auto split: bind_splits)
  with Cons.IH show ?case by (blast intro: converse_rtranclp_into_rtranclp move_step)
qed simp

lemma t_run_append: "t_run (mvs @ mvs') s = Option.bind (t_run mvs s) (t_run mvs')"
  by (induction mvs arbitrary: s) (auto split: bind_splits)

section \<open>Invariants of a transition system\<close>

locale invariant =
  fixes ini :: "'s \<Rightarrow> bool" and stp :: "'s \<Rightarrow> 's \<Rightarrow> bool" and inv :: "'s \<Rightarrow> bool"
  assumes inv_init: "ini s \<Longrightarrow> inv s"
    and inv_step: "inv s \<Longrightarrow> stp s s' \<Longrightarrow> inv s'"
begin

lemma inv_steps: "stp\<^sup>*\<^sup>* s s' \<Longrightarrow> inv s \<Longrightarrow> inv s'"
  by (induction rule: rtranclp_induct) (auto intro: inv_step)

lemma inv_reached: "ini s0 \<Longrightarrow> stp\<^sup>*\<^sup>* s0 s \<Longrightarrow> inv s"
  using inv_init inv_steps by blast

end

lemma reachable_iff: "reachable s \<longleftrightarrow> t_step\<^sup>*\<^sup>* t_start s"
proof
  show "reachable s \<Longrightarrow> t_step\<^sup>*\<^sup>* t_start s"
    by (induction rule: reachable.induct) auto
  show "t_step\<^sup>*\<^sup>* t_start s \<Longrightarrow> reachable s"
    by (induction rule: rtranclp_induct) (auto intro: reachable.intros)
qed

section \<open>Who holds what\<close>

fun io_user :: "th_io \<Rightarrow> bool" where
  "io_user I_read = False" | "io_user I_lock_user = False" | "io_user _ = True"

fun cl_user :: "th_cl \<Rightarrow> bool" where
  "cl_user (C_in_user p) = True" | "cl_user C_look = True" | "cl_user _ = False"

fun cl_line :: "th_cl \<Rightarrow> bool" where
  "cl_line C_enter = True" | "cl_line (C_test b) = True" | "cl_line C_load = True"
| "cl_line C_leave = True" | "cl_line _ = False"

text \<open>The client is counted as waiting.\<close>

fun cl_waits :: "th_cl \<Rightarrow> bool" where
  "cl_waits (C_test b) = True" | "cl_waits C_wait = True" | "cl_waits (C_relock b) = True"
| "cl_waits C_load = True" | "cl_waits C_leave = True" | "cl_waits _ = False"

text \<open>The client has been told of a line and has not taken it yet.\<close>

fun cl_told :: "bool \<Rightarrow> th_cl \<Rightarrow> bool" where
  "cl_told inact C_load = True"
| "cl_told inact (C_test b) = (\<not> inact)" | "cl_told inact C_wait = (\<not> inact)"
| "cl_told inact (C_relock b) = (\<not> inact)" | "cl_told inact _ = False"

text \<open>The I/O thread waits for the client to take the line.\<close>

fun io_holds :: "bool \<Rightarrow> th_io \<Rightarrow> bool" where
  "io_holds inact I_lock_done = True" | "io_holds inact I_done_test = inact"
| "io_holds inact I_wait = inact" | "io_holds inact I_relock = inact" | "io_holds inact _ = False"

definition owner :: "bool \<Rightarrow> bool \<Rightarrow> tid option" where
  "owner i c = (if i then Some T_io else if c then Some T_cl else None)"

definition t_inv :: "threads \<Rightarrow> bool" where
  "t_inv s \<longleftrightarrow>
     m_user s = owner (io_user (t_io s)) (cl_user (t_cl s))
     \<and> \<not> (io_user (t_io s) \<and> cl_user (t_cl s))
     \<and> m_line s = owner (t_io s = I_test) (cl_line (t_cl s))
     \<and> \<not> (t_io s = I_test \<and> cl_line (t_cl s))
     \<and> m_done s = owner (t_io s = I_done_test) (t_cl s = C_signal)
     \<and> \<not> (t_io s = I_done_test \<and> t_cl s = C_signal)
     \<and> t_waiting s = (if cl_waits (t_cl s) then 1 else 0)
     \<and> (cl_told (t_line_inactive s) (t_cl s) \<longrightarrow> io_holds (t_done_inactive s) (t_io s))
     \<and> (t_io s = I_wait \<longrightarrow> t_done_inactive s)"

lemma owner_simps [simp]:
  "owner True c = Some T_io" "owner False True = Some T_cl" "owner False False = None"
  "owner i c = None \<longleftrightarrow> \<not> i \<and> \<not> c"
  by (auto simp: owner_def)

lemma t_inv_start: "t_inv t_start"
  by (simp add: t_inv_def t_start_def)

lemma t_inv_io: "t_inv s \<Longrightarrow> io_go s = Some s' \<Longrightarrow> t_inv s'"
  by (cases s; cases "t_io s"; clarsimp simp: t_inv_def io_go_def split: if_splits)

lemma op_section_fields [simp]:
  "t_io (op_section p s) = t_io s" "m_line (op_section p s) = m_line s"
  "m_done (op_section p s) = m_done s" "t_waiting (op_section p s) = t_waiting s"
  "t_line_inactive (op_section p s) = t_line_inactive s"
  "t_done_inactive (op_section p s) = t_done_inactive s"
  by (cases p; simp)+

lemma t_inv_cl: "t_inv s \<Longrightarrow> cl_go s = Some s' \<Longrightarrow> t_inv s'"
  by (cases s; cases "t_cl s"; clarsimp simp: t_inv_def cl_go_def Let_def split: if_splits)

lemma t_inv_io_wake: "t_inv s \<Longrightarrow> t_io s = I_wait \<Longrightarrow> t_inv (s\<lparr>t_io := I_relock\<rparr>)"
  by (cases s) (clarsimp simp: t_inv_def)

lemma t_inv_cl_wake: "t_inv s \<Longrightarrow> t_cl s = C_wait \<Longrightarrow> t_inv (s\<lparr>t_cl := C_relock b\<rparr>)"
  by (cases s) (clarsimp simp: t_inv_def)

lemma t_inv_call: "t_inv s \<Longrightarrow> t_cl s = C_idle \<Longrightarrow> t_inv (s\<lparr>t_cl := C_lock_user p\<rparr>)"
  by (cases s) (clarsimp simp: t_inv_def)

lemma t_inv_read: "t_inv s \<Longrightarrow> t_cl s = C_idle \<Longrightarrow> t_inv (s\<lparr>t_cl := C_try\<rparr>)"
  by (cases s) (clarsimp simp: t_inv_def)

lemma t_inv_move: "t_inv s \<Longrightarrow> t_move mv s = Some s' \<Longrightarrow> t_inv s'"
  by (cases mv)
     (auto dest: t_inv_io t_inv_cl intro: t_inv_io_wake t_inv_cl_wake t_inv_call t_inv_read
       split: if_split_asm)

lemma t_inv_step: "t_inv s \<Longrightarrow> t_step s s' \<Longrightarrow> t_inv s'"
  using t_inv_move by (auto simp: t_step_iff)

interpretation sp_threads: invariant "\<lambda>s. s = t_start" t_step t_inv
  by unfold_locales (simp_all add: t_inv_start t_inv_step)

lemma t_inv_reachable: "reachable s \<Longrightarrow> t_inv s"
  using sp_threads.inv_reached by (simp add: reachable_iff)

lemma t_inv_run: "t_run mvs s = Some s' \<Longrightarrow> t_inv s \<Longrightarrow> t_inv s'"
proof (induction mvs arbitrary: s)
  case (Cons mv mvs)
  from Cons.prems(1) obtain x where "t_move mv s = Some x" "t_run mvs x = Some s'"
    by (auto split: bind_splits)
  with Cons.IH Cons.prems(2) show ?case by (blast intro: t_inv_move)
qed simp

section \<open>What the mutexes protect\<close>

text \<open>The statements that read the shared line, its size and its number.\<close>

fun cl_reads :: "th_cl \<Rightarrow> bool" where
  "cl_reads C_look = True" | "cl_reads C_load = True"
| "cl_reads (C_in_user Op_create) = True" | "cl_reads (C_in_user Op_purge) = True"
| "cl_reads _ = False"

text \<open>C14: the shared line is never read while it is written, in any interleaving of the two
  threads: the client's look at the buffer is excluded by the user mutex, and its read after a
  wait, which does not hold that mutex, by the wait of the I/O thread for it. Both threads are
  never in the sections of the same mutex, and the count of waiting readers is exact.\<close>

theorem threads_no_race:
  assumes "reachable s"
  shows "\<not> (t_io s = I_publish \<and> cl_reads (t_cl s))
    \<and> \<not> (io_user (t_io s) \<and> cl_user (t_cl s))
    \<and> \<not> (t_io s = I_test \<and> cl_line (t_cl s))
    \<and> \<not> (t_io s = I_done_test \<and> t_cl s = C_signal)
    \<and> t_waiting s = (if cl_waits (t_cl s) then 1 else 0)"
proof -
  have inv: "t_inv s" using t_inv_reachable [OF assms] .
  have "cl_user c \<or> cl_told i c" if "cl_reads c" for c i
    using that by (cases c rule: cl_reads.cases) auto
  then have "\<not> (t_io s = I_publish \<and> cl_reads (t_cl s))"
    using inv by (fastforce simp: t_inv_def)
  with inv show ?thesis by (simp add: t_inv_def)
qed

section \<open>The lost announcement\<close>

text \<open>A state from which neither thread ever gets on: the I/O thread holds the user mutex and
  sleeps until a reader takes the line, and the client, which has taken it, waits for that mutex.\<close>

definition dead :: "threads \<Rightarrow> bool" where
  "dead s \<longleftrightarrow> (\<exists>p. t_cl s = C_lock_user p) \<and> m_user s = Some T_io
     \<and> (t_io s = I_lock_done
        \<or> t_done_inactive s \<and> (t_io s = I_done_test \<or> t_io s = I_wait \<or> t_io s = I_relock))"

lemma dead_move: "dead s \<Longrightarrow> t_move mv s = Some s' \<Longrightarrow> dead s'"
  by (cases mv; clarsimp simp: dead_def io_go_def cl_go_def split: if_split_asm th_io.splits)

lemma dead_step: "dead s \<Longrightarrow> t_step s s' \<Longrightarrow> dead s'"
  using dead_move by (auto simp: t_step_iff)

text \<open>The client creates its reader and waits in a read; a line is announced; the client takes it
  and reports that it is done before the I/O thread has started to wait; it then starts to
  destroy the reader.\<close>

definition losing_run :: "move list" where
  "losing_run =
     [Cl_call Op_create, Cl_go, Cl_go]
     @ [Cl_read, Cl_go, Cl_go, Cl_go, Cl_go, Cl_go]
     @ [Io_go, Io_go, Io_go, Io_go, Io_go]
     @ [Cl_go, Cl_go, Cl_go, Cl_go, Cl_go, Cl_go]
     @ [Io_go, Io_go, Cl_call Op_destroy]"

lemma losing_run_dead:
  "\<exists>s. t_run losing_run t_start = Some s \<and> dead s \<and> t_io s = I_wait"
  by (simp add: losing_run_def t_start_def io_go_def cl_go_def dead_def)

interpretation sp_dead: invariant dead t_step dead
  by unfold_locales (auto intro: dead_step)

text \<open>C28: an announcement can be lost, and then both threads are blocked for ever: there is a
  reachable state in which the I/O thread holds the user mutex and sleeps, the client waits for
  that mutex, and no continuation, whatever the scheduling and even with spurious wake-ups,
  gets either of them out.\<close>

theorem threads_deadlock:
  "\<exists>s. reachable s \<and> dead s \<and> (\<forall>s'. t_step\<^sup>*\<^sup>* s s' \<longrightarrow> dead s')"
proof -
  from losing_run_dead obtain s where "t_run losing_run t_start = Some s" and d: "dead s" by blast
  then have "reachable s" using reachable_run reachable.start by blast
  with d sp_dead.inv_steps show ?thesis by blast
qed

theorem threads_deadlock_witness: "\<exists>s p. reachable s \<and> t_cl s = C_lock_user p \<and> m_user s = Some T_io"
  using threads_deadlock by (auto simp: dead_def)

section \<open>Progress\<close>

text \<open>Neither thread can move, the client is inside a call and not in a timed wait.\<close>

definition blocked :: "threads \<Rightarrow> bool" where
  "blocked s \<longleftrightarrow> io_go s = None \<and> cl_go s = None \<and> t_cl s \<noteq> C_idle \<and> t_cl s \<noteq> C_wait"

text \<open>C20: the lost announcement is the only way in which the threads block each other: in every
  reachable state in which neither can move on, the I/O thread sleeps until a line is taken and
  the client waits for the user mutex the I/O thread holds. So no order of the three mutexes
  leads to a cycle, and a client that only reads never blocks.\<close>

theorem threads_only_deadlock:
  assumes "reachable s" and "blocked s"
  shows "dead s \<and> t_io s = I_wait"
proof -
  have inv: "t_inv s" using t_inv_reachable [OF assms(1)] .
  show ?thesis
  proof (cases "t_cl s")
    case (C_lock_user p)
    then show ?thesis using inv assms(2)
      by (cases "t_io s") (auto simp: t_inv_def blocked_def io_go_def cl_go_def dead_def owner_def
          split: if_split_asm)
  qed (use inv assms(2) in \<open>cases "t_io s"; force simp: t_inv_def blocked_def io_go_def cl_go_def
         owner_def Let_def split: if_split_asm\<close>)+
qed

theorem threads_only_deadlock_witness:
  "\<exists>s. reachable s \<and> blocked s \<and> dead s"
proof -
  have "\<exists>s. t_run losing_run t_start = Some s \<and> blocked s"
    by (simp add: losing_run_def t_start_def io_go_def cl_go_def blocked_def)
  then obtain s where s: "t_run losing_run t_start = Some s" "blocked s" by blast
  then have "reachable s" using reachable_run reachable.start by blast
  from this s(2) threads_only_deadlock [OF this s(2)] show ?thesis by blast
qed

text \<open>The distance of a read from its end.\<close>

fun read_rank :: "th_cl \<Rightarrow> nat" where
  "read_rank C_try = 12" | "read_rank C_look = 11" | "read_rank C_lock_line = 10"
| "read_rank C_enter = 9" | "read_rank (C_relock False) = 8" | "read_rank (C_test False) = 7"
| "read_rank C_wait = 6" | "read_rank (C_relock True) = 5" | "read_rank (C_test True) = 4"
| "read_rank C_load = 4" | "read_rank C_leave = 3" | "read_rank C_lock_done = 2"
| "read_rank C_signal = 1" | "read_rank _ = 0"

fun in_read :: "th_cl \<Rightarrow> bool" where
  "in_read C_idle = False" | "in_read (C_lock_user p) = False" | "in_read (C_in_user p) = False"
| "in_read _ = True"

definition read_on :: "threads \<Rightarrow> threads \<Rightarrow> bool" where
  "read_on s s' \<longleftrightarrow> read_rank (t_cl s') < read_rank (t_cl s) \<and> (in_read (t_cl s') \<or> t_cl s' = C_idle)"

lemma run_one: "t_move mv s = Some s' \<Longrightarrow> t_run [mv] s = Some s'"
  by simp

lemma run_two: "t_move mv s = Some s1 \<Longrightarrow> t_move mv' s1 = Some s' \<Longrightarrow> t_run [mv, mv'] s = Some s'"
  by simp

text \<open>A mutex the client waits for in a read is held for one move of the I/O thread at most.\<close>

lemma read_locks:
  assumes "t_inv s" and "t_cl s = C_lock_line \<or> t_cl s = C_relock b"
  shows "\<exists>mvs s'. t_run mvs s = Some s' \<and> read_on s s'"
proof (cases "m_line s = None")
  case True
  with assms(2) have "t_run [Cl_go] s = Some (s\<lparr>m_line := Some T_cl,
      t_cl := (case t_cl s of C_lock_line \<Rightarrow> C_enter | _ \<Rightarrow> C_test b)\<rparr>)"
    by (auto simp: cl_go_def)
  moreover have "read_on s (s\<lparr>m_line := Some T_cl, t_cl := (case t_cl s of C_lock_line \<Rightarrow> C_enter | _ \<Rightarrow> C_test b)\<rparr>)"
    using assms(2) by (cases b) (auto simp: read_on_def)
  ultimately show ?thesis by blast
next
  case False
  with assms have io: "t_io s = I_test" by (auto simp: t_inv_def owner_def split: if_splits)
  then obtain s1 where s1: "t_move Io_go s = Some s1" "m_line s1 = None" "t_cl s1 = t_cl s"
    using assms(2) by (cases "t_waiting s = 0") (auto simp: io_go_def)
  let ?s2 = "s1\<lparr>m_line := Some T_cl, t_cl := (case t_cl s1 of C_lock_line \<Rightarrow> C_enter | _ \<Rightarrow> C_test b)\<rparr>"
  have "t_move Cl_go s1 = Some ?s2" using assms(2) s1(2,3) by (auto simp: cl_go_def)
  with run_two [OF s1(1)] have "t_run [Io_go, Cl_go] s = Some ?s2" by blast
  moreover have "read_on s ?s2" using assms(2) s1(3) by (cases b) (auto simp: read_on_def)
  ultimately show ?thesis by blast
qed

lemma read_done_lock:
  assumes "t_inv s" and "t_cl s = C_lock_done"
  shows "\<exists>mvs s'. t_run mvs s = Some s' \<and> read_on s s'"
proof (cases "m_done s = None")
  case True
  with assms(2) have "t_run [Cl_go] s = Some (s\<lparr>m_done := Some T_cl, t_cl := C_signal\<rparr>)"
    by (simp add: cl_go_def)
  then show ?thesis using assms(2) by (fastforce simp: read_on_def)
next
  case False
  with assms have io: "t_io s = I_done_test" by (auto simp: t_inv_def owner_def split: if_splits)
  then obtain s1 where s1: "t_move Io_go s = Some s1" "m_done s1 = None" "t_cl s1 = t_cl s"
    by (cases "t_done_inactive s") (auto simp: io_go_def)
  have "t_move Cl_go s1 = Some (s1\<lparr>m_done := Some T_cl, t_cl := C_signal\<rparr>)"
    using assms(2) s1(2,3) by (simp add: cl_go_def)
  with run_two [OF s1(1)] have
    "t_run [Io_go, Cl_go] s = Some (s1\<lparr>m_done := Some T_cl, t_cl := C_signal\<rparr>)" by blast
  then show ?thesis using assms(2) by (fastforce simp: read_on_def)
qed

lemma read_go: "\<exists>s'. cl_go s = Some s' \<and> read_on s s' \<Longrightarrow> \<exists>mvs s'. t_run mvs s = Some s' \<and> read_on s s'"
  by (metis run_one t_move.simps(3))

lemma read_straight:
  "t_cl s \<in> {C_try, C_look, C_enter, C_load, C_leave, C_signal} \<Longrightarrow> \<exists>s'. cl_go s = Some s' \<and> read_on s s'"
  by (auto simp: cl_go_def read_on_def Let_def)

lemma read_moves:
  assumes "t_inv s" and "in_read (t_cl s)"
  shows "\<exists>mvs s'. t_run mvs s = Some s' \<and> read_on s s'"
proof (cases "t_cl s")
  case C_lock_line
  then show ?thesis using read_locks assms(1) by blast
next
  case (C_relock b)
  then show ?thesis using read_locks assms(1) by blast
next
  case C_lock_done
  then show ?thesis using read_done_lock assms(1) by blast
next
  case C_wait
  then have "t_move Cl_late s = Some (s\<lparr>t_cl := C_relock True\<rparr>)" by simp
  from run_one [OF this] C_wait show ?thesis by (fastforce simp: read_on_def)
next
  case (C_test b)
  then show ?thesis by (intro read_go, cases b) (auto simp: cl_go_def read_on_def)
qed (use assms(2) in \<open>auto intro: read_go [OF read_straight]\<close>)

lemma read_ends:
  "t_inv s \<Longrightarrow> in_read (t_cl s) \<Longrightarrow> \<exists>mvs s'. t_run mvs s = Some s' \<and> t_cl s' = C_idle"
proof (induction "read_rank (t_cl s)" arbitrary: s rule: less_induct)
  case less
  from read_moves [OF less.prems] obtain mvs s1 where s1: "t_run mvs s = Some s1" "read_on s s1" by blast
  show ?case
  proof (cases "t_cl s1 = C_idle")
    case True
    with s1(1) show ?thesis by blast
  next
    case False
    with s1 have "read_rank (t_cl s1) < read_rank (t_cl s)" "in_read (t_cl s1)" by (auto simp: read_on_def)
    from less.hyps [OF this(1) t_inv_run [OF s1(1) less.prems(1)] this(2)] obtain mvs' s'
      where "t_run mvs' s1 = Some s'" "t_cl s' = C_idle" by blast
    with s1(1) have "t_run (mvs @ mvs') s = Some s'" by (simp add: t_run_append)
    with \<open>t_cl s' = C_idle\<close> show ?thesis by blast
  qed
qed

text \<open>A read can always come to its end: from every reachable state in which the client is
  inside \<open>sp_read\<close>, at whatever point and whatever the I/O thread is doing, there is a
  continuation in which the call returns; the time-out of the wait needs no cooperation.\<close>

theorem threads_read_ends:
  assumes "reachable s" and "in_read (t_cl s)"
  shows "\<exists>s'. t_step\<^sup>*\<^sup>* s s' \<and> t_cl s' = C_idle"
proof -
  from read_ends [OF t_inv_reachable [OF assms(1)] assms(2)] obtain mvs s'
    where "t_run mvs s = Some s'" "t_cl s' = C_idle" by blast
  then show ?thesis using run_steps by blast
qed

theorem threads_read_ends_witness:
  "\<exists>s s'. t_run (take 9 losing_run) t_start = Some s \<and> t_cl s = C_wait \<and> t_step\<^sup>*\<^sup>* s s' \<and> t_cl s' = C_idle"
proof -
  have "\<exists>s. t_run (take 9 losing_run) t_start = Some s \<and> t_cl s = C_wait"
    by (simp add: losing_run_def t_start_def io_go_def cl_go_def)
  then obtain s where s: "t_run (take 9 losing_run) t_start = Some s" "t_cl s = C_wait" by blast
  then have "reachable s" using reachable_run reachable.start by blast
  from threads_read_ends [OF this] s show ?thesis by auto
qed

theorem threads_no_race_witness:
  "\<exists>s. t_run (take 11 losing_run) t_start = Some s \<and> t_io s = I_publish \<and> \<not> cl_reads (t_cl s) \<and> t_waiting s = 1"
proof -
  have "\<exists>s. t_run (take 11 losing_run) t_start = Some s \<and> t_io s = I_publish \<and> t_cl s = C_wait"
    by (simp add: losing_run_def t_start_def io_go_def cl_go_def)
  then obtain s where s: "t_run (take 11 losing_run) t_start = Some s" "t_io s = I_publish" "t_cl s = C_wait"
    by blast
  then have "reachable s" using reachable_run reachable.start by blast
  from threads_no_race [OF this] s show ?thesis by auto
qed

end
