(* ===== verification/Sockpush_Wait.thy ===== *)
theory Sockpush_Wait
  imports Sockpush_Threads
begin

text \<open>
  What a read sees of the other thread: the number of lines published while the client waits,
  and whether a line can be given to it a second time. These are the facts with which the
  sequential model of \<open>Sockpush\<close> describes the I/O thread by one record \<open>rd_event\<close> per read.
\<close>

section \<open>The reader a call works on\<close>

text \<open>Inside a call the reader it needs exists, since only the client destroys it.\<close>

definition call_inv :: "threads \<Rightarrow> bool" where
  "call_inv s \<longleftrightarrow> (in_read (t_cl s) \<longrightarrow> 0 < t_readers s)
     \<and> (\<forall>p. t_cl s = C_lock_user p \<or> t_cl s = C_in_user p \<longrightarrow> may_call p s)"

lemma may_call_cong: "t_readers s = t_readers s' \<Longrightarrow> may_call p s = may_call p s'"
  by (cases p) auto

lemma may_call_upd [simp]:
  "may_call p (s\<lparr>t_io := i\<rparr>) = may_call p s" "may_call p (s\<lparr>t_cl := c\<rparr>) = may_call p s"
  by (cases p; simp)+

lemma io_go_reader: "io_go s = Some s' \<Longrightarrow> t_readers s' = t_readers s \<and> t_last_read s' = t_last_read s
    \<and> (t_cl s' = t_cl s \<or> t_cl s = C_wait \<and> t_cl s' = C_relock False)"
  by (cases "t_io s") (auto simp: io_go_def split: if_split_asm)

lemma cl_go_io:
  assumes "cl_go s = Some s'" and "t_cl s \<noteq> C_signal"
  shows "t_io s' = t_io s \<and> t_done_inactive s' = t_done_inactive s \<and> t_read_id s' = t_read_id s"
proof (cases "t_cl s")
  case (C_in_user p)
  with assms show ?thesis by (cases p) (auto simp: cl_go_def)
qed (use assms in \<open>auto simp: cl_go_def Let_def split: if_split_asm\<close>)

lemma call_inv_io: "call_inv s \<Longrightarrow> io_go s = Some s' \<Longrightarrow> call_inv s'"
  using io_go_reader [of s s'] may_call_cong [of s s'] by (auto simp: call_inv_def)

lemma call_inv_cl:
  assumes "call_inv s" and "cl_go s = Some s'"
  shows "call_inv s'"
proof (cases "t_cl s")
  case (C_in_user p)
  with assms show ?thesis by (auto simp: call_inv_def cl_go_def)
next
  case (C_lock_user p)
  with assms show ?thesis
    by (cases p) (auto simp: call_inv_def cl_go_def split: if_split_asm)
qed (use assms in \<open>auto simp: call_inv_def cl_go_def Let_def split: if_split_asm\<close>)

lemma call_inv_call: "t_cl s = C_idle \<Longrightarrow> may_call p s \<Longrightarrow> call_inv (s\<lparr>t_cl := C_lock_user p\<rparr>)"
  by (simp add: call_inv_def)

lemma call_inv_inside:
  "call_inv s \<Longrightarrow> in_read c \<Longrightarrow> 0 < t_readers s \<Longrightarrow> call_inv (s\<lparr>t_cl := c\<rparr>)"
  "call_inv s \<Longrightarrow> call_inv (s\<lparr>t_io := i\<rparr>)"
  by (cases c; simp add: call_inv_def) (simp add: call_inv_def)

lemma call_inv_move: "call_inv s \<Longrightarrow> t_move mv s = Some s' \<Longrightarrow> call_inv s'"
proof (induction mv s rule: t_move.induct)
  case (1 s)
  then show ?case using call_inv_io by simp
next
  case (3 s)
  then show ?case using call_inv_cl by simp
qed (auto intro!: call_inv_inside call_inv_call split: if_split_asm simp: call_inv_def)

interpretation sp_calls: invariant "\<lambda>s. s = t_start" t_step call_inv
proof unfold_locales
  show "s = t_start \<Longrightarrow> call_inv s" for s by (simp add: call_inv_def t_start_def)
  show "call_inv s \<Longrightarrow> t_step s s' \<Longrightarrow> call_inv s'" for s s'
    using call_inv_move by (auto simp: t_step_iff)
qed

lemma reader_exists: "reachable s \<Longrightarrow> in_read (t_cl s) \<Longrightarrow> 0 < t_readers s"
  using sp_calls.inv_reached [of t_start s] by (auto simp: reachable_iff call_inv_def)

section \<open>One line at most during a wait\<close>

text \<open>While the client is counted as waiting, and a line has been published since it was: the I/O
  thread is on the way to announcing that line, or waits until it is taken.\<close>

definition announcing :: "threads \<Rightarrow> bool" where
  "announcing s \<longleftrightarrow> t_io s \<in> {I_lock_line, I_test} \<or> io_holds (t_done_inactive s) (t_io s)"

text \<open>A run all of whose moves satisfy a condition, here that the client stays in the wait.\<close>

primrec run_while :: "(threads \<Rightarrow> threads \<Rightarrow> bool) \<Rightarrow> move list \<Rightarrow> threads \<Rightarrow> threads option" where
  "run_while R [] s = Some s"
| "run_while R (mv # mvs) s =
     Option.bind (t_move mv s) (\<lambda>x. if R s x then run_while R mvs x else None)"

definition still_waits :: "threads \<Rightarrow> threads \<Rightarrow> bool" where
  "still_waits s s' \<longleftrightarrow> cl_waits (t_cl s')"

lemma announcing_io:
  assumes "io_go s = Some s'" and "announcing s" and "0 < t_waiting s"
  shows "announcing s' \<and> t_read_id s' = t_read_id s"
  using assms by (cases "t_io s") (auto simp: announcing_def io_go_def split: if_split_asm)

lemma publishes_io:
  assumes "io_go s = Some s'" and "0 < t_readers s"
  shows "t_read_id s' = t_read_id s \<or> t_read_id s' = t_read_id s + 1 \<and> announcing s'"
  using assms by (cases "t_io s") (auto simp: announcing_def io_go_def split: if_split_asm)

lemma announcing_cong:
  "t_io s' = t_io s \<Longrightarrow> t_done_inactive s' = t_done_inactive s \<Longrightarrow> announcing s' = announcing s"
  by (simp add: announcing_def)

lemma other_moves:
  assumes "t_move mv s = Some s'" and "mv \<noteq> Io_go" and "t_cl s \<noteq> C_signal"
  shows "t_read_id s' = t_read_id s \<and> (announcing s \<longrightarrow> announcing s')"
proof (cases mv)
  case Cl_go
  with assms show ?thesis using cl_go_io [of s s'] announcing_cong [of s' s] by simp
next
  case Io_wake
  with assms show ?thesis by (auto simp: announcing_def split: if_split_asm)
qed (use assms in \<open>auto simp: announcing_def split: if_split_asm\<close>)

lemma wait_move_once:
  assumes mv: "t_move mv s = Some s'" and c: "cl_waits (t_cl s)" and inv: "t_inv s" "call_inv s"
  shows "announcing s \<Longrightarrow> announcing s' \<and> t_read_id s' = t_read_id s"
    and "t_read_id s' = t_read_id s \<or> t_read_id s' = t_read_id s + 1 \<and> announcing s'"
proof -
  have w: "0 < t_waiting s" using inv(1) c by (simp add: t_inv_def)
  have "in_read (t_cl s)" using c by (cases "t_cl s") auto
  with inv(2) have r: "0 < t_readers s" by (simp add: call_inv_def)
  have ns: "t_cl s \<noteq> C_signal" using c by auto
  show "announcing s' \<and> t_read_id s' = t_read_id s" if "announcing s"
    using announcing_io [OF _ that w] other_moves [OF mv _ ns] that mv by (cases "mv = Io_go") auto
  show "t_read_id s' = t_read_id s \<or> t_read_id s' = t_read_id s + 1 \<and> announcing s'"
    using publishes_io [OF _ r] other_moves [OF mv _ ns] mv by (cases "mv = Io_go") auto
qed

lemma wait_run_once:
  "run_while still_waits mvs s = Some s' \<Longrightarrow> cl_waits (t_cl s) \<Longrightarrow> t_inv s \<Longrightarrow> call_inv s \<Longrightarrow>
     t_inv s' \<and> (announcing s \<longrightarrow> t_read_id s' = t_read_id s)
     \<and> (t_read_id s' = t_read_id s \<or> t_read_id s' = t_read_id s + 1)"
proof (induction mvs arbitrary: s)
  case (Cons mv mvs)
  from Cons.prems(1) obtain x where x: "t_move mv s = Some x" "cl_waits (t_cl x)"
    "run_while still_waits mvs x = Some s'"
    by (auto split: bind_splits if_split_asm) (simp add: still_waits_def)
  note once = wait_move_once [OF x(1) Cons.prems(2-4)]
  have "t_inv x" "call_inv x" using t_inv_move call_inv_move x(1) Cons.prems(3,4) by blast+
  from Cons.IH [OF x(3,2) this] once show ?case by auto
qed simp

text \<open>A wait sees one line at most: from the moment the client is counted as waiting until it
  leaves the wait, at most one line is published, in any interleaving; and when it goes on to
  load a line, the I/O thread is held up, so that no other line can be published before the
  client has left. The sequential model of a read has one optional line for the wait for this
  reason.\<close>

theorem threads_wait_one_line:
  assumes "reachable s" and "cl_waits (t_cl s)" and "run_while still_waits mvs s = Some s'"
  shows "(t_read_id s' = t_read_id s \<or> t_read_id s' = t_read_id s + 1)
    \<and> (t_cl s' = C_load \<longrightarrow> io_holds (t_done_inactive s') (t_io s'))"
proof -
  have "call_inv s" using sp_calls.inv_reached assms(1) by (simp add: reachable_iff)
  from wait_run_once [OF assms(3,2) t_inv_reachable [OF assms(1)] this]
  show ?thesis by (auto simp: t_inv_def)
qed

theorem threads_wait_one_line_witness:
  "\<exists>s mvs s'. reachable s \<and> t_cl s = C_wait \<and> run_while still_waits mvs s = Some s'
    \<and> t_read_id s' = t_read_id s + 1 \<and> t_cl s' = C_load \<and> io_holds (t_done_inactive s') (t_io s')"
proof -
  have "\<exists>s s'. t_run (take 9 losing_run) t_start = Some s \<and> t_cl s = C_wait
      \<and> run_while still_waits [Io_go, Io_go, Io_go, Io_go, Io_go, Cl_go, Cl_go] s = Some s'
      \<and> t_cl s' = C_load \<and> t_read_id s' \<noteq> t_read_id s"
    by (simp add: losing_run_def t_start_def io_go_def cl_go_def still_waits_def)
  then obtain s s' where s: "t_run (take 9 losing_run) t_start = Some s" "t_cl s = C_wait"
    and r: "run_while still_waits [Io_go, Io_go, Io_go, Io_go, Io_go, Cl_go, Cl_go] s = Some s'"
    and s': "t_cl s' = C_load" "t_read_id s' \<noteq> t_read_id s" by blast
  have "reachable s" using reachable_run [OF s(1)] reachable.start by blast
  with threads_wait_one_line [OF this _ r] s(2) s'
  have "reachable s \<and> t_cl s = C_wait \<and> t_read_id s' = t_read_id s + 1 \<and> t_cl s' = C_load
      \<and> io_holds (t_done_inactive s') (t_io s')" by simp
  with r show ?thesis by blast
qed

section \<open>No line twice\<close>

text \<open>A move by which no line is published.\<close>

definition no_line :: "threads \<Rightarrow> threads \<Rightarrow> bool" where
  "no_line s s' \<longleftrightarrow> t_read_id s' = t_read_id s"

text \<open>The client is about to copy the shared line for its caller.\<close>

definition takes :: "threads \<Rightarrow> bool" where
  "takes s \<longleftrightarrow> t_cl s = C_load \<or> t_cl s = C_look \<and> t_last_read s \<noteq> t_read_id s"

text \<open>The line has been taken, and no announcement of it is under way.\<close>

definition taken :: "threads \<Rightarrow> bool" where
  "taken s \<longleftrightarrow> t_last_read s = t_read_id s \<and> t_io s \<notin> {I_lock_line, I_test}
     \<and> \<not> cl_told (t_line_inactive s) (t_cl s)"

lemma taken_takes: "taken s \<Longrightarrow> \<not> takes s"
  by (auto simp: taken_def takes_def)

lemma taken_io:
  "taken s \<Longrightarrow> io_go s = Some s' \<Longrightarrow> t_read_id s' = t_read_id s \<Longrightarrow> taken s'"
  by (cases "t_io s") (auto simp: taken_def io_go_def split: if_split_asm)

lemma taken_cl:
  assumes "taken s" and "cl_go s = Some s'"
  shows "taken s'"
proof (cases "t_cl s")
  case (C_in_user p)
  with assms show ?thesis by (cases p) (auto simp: taken_def cl_go_def)
next
  case C_signal
  with assms show ?thesis by (cases "t_io s = I_wait") (auto simp: taken_def cl_go_def)
qed (use assms in \<open>auto simp: taken_def cl_go_def Let_def split: if_split_asm\<close>)

lemma taken_move:
  "taken s \<Longrightarrow> t_move mv s = Some s' \<Longrightarrow> t_read_id s' = t_read_id s \<Longrightarrow> taken s'"
proof (induction mv s rule: t_move.induct)
  case (1 s)
  then show ?case using taken_io by simp
next
  case (3 s)
  then show ?case using taken_cl by simp
qed (auto simp: taken_def split: if_split_asm)

lemma taken_run: "run_while no_line mvs s = Some s' \<Longrightarrow> taken s \<Longrightarrow> taken s'"
proof (induction mvs arbitrary: s)
  case (Cons mv mvs)
  then show ?case by (auto simp: no_line_def split: bind_splits if_split_asm dest: taken_move)
qed simp

lemma takes_taken:
  assumes "t_inv s" and "takes s" and "cl_go s = Some s'"
  shows "taken s'"
  using assms by (cases "t_io s") (auto simp: takes_def taken_def cl_go_def t_inv_def)

text \<open>C15: no line is given to the client twice, in any interleaving: once it has copied a line, from
  the buffer or after a wait, it does not come to copy one again, in the same or a later call,
  before another line has been published. A line that is still being announced when it was
  taken does not reach the client's next read.\<close>

theorem threads_no_repeat:
  assumes "reachable s" and "takes s" and "cl_go s = Some s1" and "run_while no_line mvs s1 = Some s'"
  shows "\<not> takes s' \<and> t_last_read s' = t_read_id s'"
  using taken_run [OF assms(4) takes_taken [OF t_inv_reachable [OF assms(1)] assms(2,3)]]
  by (simp add: taken_takes) (simp add: taken_def)

theorem threads_no_repeat_witness:
  "\<exists>s s1 mvs s'. reachable s \<and> takes s \<and> cl_go s = Some s1 \<and> run_while no_line mvs s1 = Some s'
    \<and> t_cl s' = C_wait \<and> \<not> takes s' \<and> t_last_read s' = t_read_id s'"
proof -
  let ?mvs = "[Cl_go, Cl_go, Cl_go, Io_go, Io_go, Cl_read, Cl_go, Cl_go, Cl_go, Cl_go]"
  have "\<exists>s s1 s'. t_run (take 16 losing_run) t_start = Some s \<and> takes s \<and> cl_go s = Some s1
      \<and> run_while no_line ?mvs s1 = Some s' \<and> t_cl s' = C_wait"
    by (simp add: losing_run_def t_start_def io_go_def cl_go_def takes_def no_line_def)
  then obtain s s1 s' where s: "t_run (take 16 losing_run) t_start = Some s"
    and t: "takes s" "cl_go s = Some s1" "run_while no_line ?mvs s1 = Some s'" and c: "t_cl s' = C_wait"
    by blast
  have "reachable s" using reachable_run [OF s] reachable.start by blast
  with threads_no_repeat [OF this t] t c show ?thesis by blast
qed

end
