(* ===== verification/Sockpush_Mailbox.thy ===== *)
theory Sockpush_Mailbox
  imports Sockpush_Wait
begin

text \<open>
  The contract of the handle towards its reader, as an abstract machine without threads: a
  mailbox that holds the last line only, counts the lines its reader has not seen, and gives each
  line at most once. Every run of the two interleaved threads is a run of the mailbox: each
  operation takes effect in one of its own moves, and the publication of a line in the move in
  which the I/O thread decides whether to wake the reader.
\<close>

section \<open>The mailbox\<close>

record mailbox =
  mb_id :: u32         \<comment> \<open>the number of the line it holds\<close>
  mb_fresh :: nat      \<comment> \<open>lines since the reader was last up to date\<close>
  mb_readers :: nat

datatype mb_event = Mb_line | Mb_create | Mb_destroy | Mb_purge | Mb_take u32

fun mb_step :: "mb_event \<Rightarrow> mailbox \<Rightarrow> mailbox option" where
  "mb_step Mb_line m = Some (m\<lparr>mb_id := mb_id m + 1, mb_fresh := Suc (mb_fresh m)\<rparr>)"
| "mb_step Mb_create m =
     (if mb_readers m = 0 then Some (m\<lparr>mb_fresh := 0, mb_readers := 1\<rparr>) else None)"
| "mb_step Mb_destroy m = (if mb_readers m = 1 then Some (m\<lparr>mb_readers := 0\<rparr>) else None)"
| "mb_step Mb_purge m = (if mb_readers m = 1 then Some (m\<lparr>mb_fresh := 0\<rparr>) else None)"
| "mb_step (Mb_take i) m =
     (if mb_readers m = 1 \<and> 0 < mb_fresh m \<and> i = mb_id m then Some (m\<lparr>mb_fresh := 0\<rparr>) else None)"

definition mb_start :: mailbox where
  "mb_start = \<lparr>mb_id = 1, mb_fresh = 0, mb_readers = 0\<rparr>"

section \<open>Refinement of traces\<close>

primrec run_all :: "('e \<Rightarrow> 's \<Rightarrow> 's option) \<Rightarrow> 'e list \<Rightarrow> 's \<Rightarrow> 's option" where
  "run_all f [] s = Some s"
| "run_all f (e # es) s = Option.bind (f e s) (run_all f es)"

lemma run_all_append: "run_all f (es @ es') s = Option.bind (run_all f es s) (run_all f es')"
  by (induction es arbitrary: s) (auto split: bind_splits)

lemma t_run_all: "t_run mvs s = run_all t_move mvs s"
  by (induction mvs arbitrary: s) (simp_all cong: bind_option_cong)

text \<open>A concrete move that may fail, the abstract events it stands for, and the relation between
  the states.\<close>

locale trace_refinement =
  fixes cstep :: "'m \<Rightarrow> 'c \<Rightarrow> 'c option" and evs :: "'m \<Rightarrow> 'c \<Rightarrow> 'e list"
    and astep :: "'e \<Rightarrow> 'a \<Rightarrow> 'a option" and rel :: "'c \<Rightarrow> 'a \<Rightarrow> bool"
  assumes sim: "rel c a \<Longrightarrow> cstep mv c = Some c' \<Longrightarrow>
    \<exists>a'. run_all astep (evs mv c) a = Some a' \<and> rel c' a'"
begin

primrec trace :: "'m list \<Rightarrow> 'c \<Rightarrow> 'e list" where
  "trace [] c = []"
| "trace (mv # mvs) c = evs mv c @ (case cstep mv c of None \<Rightarrow> [] | Some c' \<Rightarrow> trace mvs c')"

lemma trace_refines:
  "run_all cstep mvs c = Some c' \<Longrightarrow> rel c a \<Longrightarrow>
     \<exists>a'. run_all astep (trace mvs c) a = Some a' \<and> rel c' a'"
proof (induction mvs arbitrary: c a)
  case (Cons mv mvs)
  then obtain c1 where c1: "cstep mv c = Some c1" "run_all cstep mvs c1 = Some c'"
    by (auto split: bind_splits)
  from sim [OF Cons.prems(2) c1(1)] obtain a1
    where "run_all astep (evs mv c) a = Some a1" "rel c1 a1" by blast
  with Cons.IH [OF c1(2)] c1(1) show ?case by (auto simp: run_all_append)
qed simp

end

section \<open>Where each operation takes effect\<close>

text \<open>A line counts as published when the I/O thread has decided whether to wake the reader; until
  then it holds the user mutex, and nobody can see the line.\<close>

definition pending :: "threads \<Rightarrow> bool" where
  "pending s \<longleftrightarrow> t_io s \<in> {I_lock_line, I_test}"

definition abs_id :: "threads \<Rightarrow> u32" where
  "abs_id s = t_read_id s - (if pending s then 1 else 0)"

definition lands :: "move \<Rightarrow> threads \<Rightarrow> bool" where
  "lands mv s \<longleftrightarrow> mv = Io_go \<and> (t_io s = I_test \<or> t_io s = I_publish \<and> t_readers s = 0)"

fun op_event :: "cl_op \<Rightarrow> mb_event list" where
  "op_event Op_create = [Mb_create]" | "op_event Op_destroy = [Mb_destroy]"
| "op_event Op_purge = [Mb_purge]" | "op_event Op_write = []"

definition t_events :: "move \<Rightarrow> threads \<Rightarrow> mb_event list" where
  "t_events mv s =
     (if lands mv s then [Mb_line]
      else if mv = Cl_go then
        (if takes s then [Mb_take (t_read_id s)]
         else case t_cl s of C_in_user p \<Rightarrow> op_event p | _ \<Rightarrow> [])
      else [])"

definition mb_rel :: "threads \<Rightarrow> mailbox \<Rightarrow> bool" where
  "mb_rel s m \<longleftrightarrow> t_inv s \<and> call_inv s \<and> t_readers s \<le> 1
     \<and> mb_id m = abs_id s \<and> mb_readers m = t_readers s
     \<and> (t_readers s = 1 \<longrightarrow> of_nat (mb_fresh m) = abs_id s - t_last_read s)
     \<and> (cl_told (t_line_inactive s) (t_cl s) \<longrightarrow> 0 < mb_fresh m)"

lemma abs_id_move:
  assumes "t_move mv s = Some s'"
  shows "abs_id s' = abs_id s + (if lands mv s then 1 else 0)"
proof (cases mv)
  case Io_go
  with assms show ?thesis
    by (cases "t_io s") (auto simp: abs_id_def pending_def lands_def io_go_def split: if_split_asm)
next
  case Cl_go
  have "t_io s' = t_io s \<and> t_read_id s' = t_read_id s
      \<or> t_io s = I_wait \<and> t_io s' = I_relock \<and> t_read_id s' = t_read_id s"
  proof (cases "t_cl s = C_signal")
    case True
    with assms Cl_go show ?thesis by (auto simp: cl_go_def)
  next
    case False
    with assms Cl_go show ?thesis using cl_go_io [of s s'] by simp
  qed
  with Cl_go show ?thesis by (auto simp: abs_id_def pending_def lands_def)
qed (use assms in \<open>auto simp: abs_id_def pending_def lands_def split: if_split_asm\<close>)

section \<open>Every move is a move of the mailbox\<close>

lemma io_go_told:
  assumes "io_go s = Some s'" and "cl_told (t_line_inactive s') (t_cl s')"
  shows "cl_told (t_line_inactive s) (t_cl s) \<or> lands Io_go s"
  using assms by (cases "t_io s") (auto simp: io_go_def lands_def split: if_split_asm)

lemma mb_rel_io:
  assumes rel: "mb_rel s m" and go: "io_go s = Some s'"
  shows "\<exists>m'. run_all mb_step (t_events Io_go s) m = Some m' \<and> mb_rel s' m'"
proof -
  have inv: "t_inv s'" "call_inv s'" using rel t_inv_io call_inv_io go by (auto simp: mb_rel_def)
  have id: "abs_id s' = abs_id s + (if lands Io_go s then 1 else 0)"
    using abs_id_move [of Io_go] go by simp
  have r: "t_readers s' = t_readers s" "t_last_read s' = t_last_read s" using io_go_reader [OF go] by auto
  show ?thesis
  proof (cases "lands Io_go s")
    case True
    with rel inv id r show ?thesis by (auto simp: t_events_def mb_rel_def)
  next
    case False
    then have "cl_told (t_line_inactive s') (t_cl s') \<Longrightarrow> cl_told (t_line_inactive s) (t_cl s)"
      using io_go_told [OF go] by blast
    with False rel inv id r show ?thesis by (auto simp: t_events_def mb_rel_def)
  qed
qed

lemma takes_current:
  assumes "t_inv s" and "takes s"
  shows "\<not> pending s" and "abs_id s = t_read_id s"
  using assms by (auto simp: abs_id_def pending_def takes_def t_inv_def split: th_io.splits)

lemma user_section_current:
  assumes "t_inv s" and "t_cl s = C_in_user p"
  shows "abs_id s = t_read_id s"
  using assms by (cases "t_io s") (auto simp: abs_id_def pending_def t_inv_def)

lemma mb_rel_take:
  assumes rel: "mb_rel s m" and t: "takes s" and go: "cl_go s = Some s'"
  shows "\<exists>m'. run_all mb_step (t_events Cl_go s) m = Some m' \<and> mb_rel s' m'"
proof -
  have inv: "t_inv s" "call_inv s" "t_inv s'" "call_inv s'"
    using rel t_inv_cl call_inv_cl go by (auto simp: mb_rel_def)
  have "in_read (t_cl s)" using t by (auto simp: takes_def)
  then have one: "t_readers s = 1" using rel inv(2) by (auto simp: mb_rel_def call_inv_def)
  note id = takes_current [OF inv(1) t]
  have fresh: "0 < mb_fresh m"
  proof (cases "t_cl s = C_load")
    case True
    then show ?thesis using rel by (simp add: mb_rel_def)
  next
    case False
    then have "t_last_read s \<noteq> t_read_id s" using t by (simp add: takes_def)
    then have "of_nat (mb_fresh m) \<noteq> (0 :: u32)" using rel one id by (simp add: mb_rel_def)
    then show ?thesis by (cases "mb_fresh m") auto
  qed
  have s': "abs_id s' = abs_id s" "t_last_read s' = t_read_id s" "t_readers s' = t_readers s"
    "\<not> cl_told (t_line_inactive s') (t_cl s')"
    using t go abs_id_move [of Cl_go s s'] by (auto simp: takes_def cl_go_def lands_def)
  show ?thesis using rel inv one id fresh s' t by (simp add: t_events_def lands_def mb_rel_def)
qed

lemma mb_rel_section:
  assumes rel: "mb_rel s m" and c: "t_cl s = C_in_user p" and go: "cl_go s = Some s'"
  shows "\<exists>m'. run_all mb_step (t_events Cl_go s) m = Some m' \<and> mb_rel s' m'"
proof -
  have inv: "t_inv s" "call_inv s" "t_inv s'" "call_inv s'"
    using rel t_inv_cl call_inv_cl go by (auto simp: mb_rel_def)
  have m: "may_call p s" using inv(2) c by (simp add: call_inv_def)
  note id = user_section_current [OF inv(1) c]
  have id': "abs_id s' = abs_id s" using abs_id_move [of Cl_go s s'] go by (simp add: lands_def)
  show ?thesis using rel inv m id id' c go
    by (cases p) (auto simp: t_events_def lands_def takes_def mb_rel_def cl_go_def)
qed

lemma cl_go_keeps:
  assumes "cl_go s = Some s'" and "\<not> takes s" and "\<And>p. t_cl s \<noteq> C_in_user p"
  shows "t_last_read s' = t_last_read s \<and> t_readers s' = t_readers s
    \<and> (cl_told (t_line_inactive s') (t_cl s') \<longrightarrow> cl_told (t_line_inactive s) (t_cl s))"
  using assms by (cases "t_cl s") (auto simp: cl_go_def takes_def Let_def split: if_split_asm)

lemma mb_rel_cl:
  assumes rel: "mb_rel s m" and go: "cl_go s = Some s'"
  shows "\<exists>m'. run_all mb_step (t_events Cl_go s) m = Some m' \<and> mb_rel s' m'"
proof -
  consider "takes s" | p where "t_cl s = C_in_user p" | "\<not> takes s" "\<And>p. t_cl s \<noteq> C_in_user p" by blast
  then show ?thesis
  proof cases
    case 3
    then have "t_events Cl_go s = []" by (simp add: t_events_def lands_def split: th_cl.splits)
    moreover have "t_inv s'" "call_inv s'" using rel t_inv_cl call_inv_cl go by (auto simp: mb_rel_def)
    moreover have "abs_id s' = abs_id s" using abs_id_move [of Cl_go s s'] go by (simp add: lands_def)
    ultimately show ?thesis using rel cl_go_keeps [OF go 3] by (auto simp: mb_rel_def)
  qed (use mb_rel_take mb_rel_section rel go in blast)+
qed

lemma mb_rel_other:
  assumes rel: "mb_rel s m" and go: "t_move mv s = Some s'" and mv: "mv \<noteq> Io_go" "mv \<noteq> Cl_go"
  shows "t_events mv s = [] \<and> mb_rel s' m"
proof -
  have "t_inv s'" "call_inv s'" using rel t_inv_move call_inv_move go by (auto simp: mb_rel_def)
  moreover have "abs_id s' = abs_id s" using abs_id_move [OF go] mv by (simp add: lands_def)
  moreover have "t_last_read s' = t_last_read s \<and> t_readers s' = t_readers s
      \<and> (cl_told (t_line_inactive s') (t_cl s') \<longrightarrow> cl_told (t_line_inactive s) (t_cl s))"
    using go mv by (cases mv) (auto split: if_split_asm)
  ultimately show ?thesis using rel mv by (simp add: t_events_def lands_def mb_rel_def)
qed

interpretation sp_mailbox: trace_refinement t_move t_events mb_step mb_rel
proof unfold_locales
  fix s m mv s'
  assume "mb_rel s m" and "t_move mv s = Some s'"
  then show "\<exists>m'. run_all mb_step (t_events mv s) m = Some m' \<and> mb_rel s' m'"
    by (cases "mv = Io_go"; cases "mv = Cl_go") (auto dest: mb_rel_io mb_rel_cl mb_rel_other)
qed

lemma mb_rel_start: "mb_rel t_start mb_start"
proof -
  have "call_inv t_start" using sp_calls.inv_init by simp
  then show ?thesis
    by (simp add: mb_rel_def t_inv_start) (simp add: t_start_def mb_start_def abs_id_def pending_def)
qed

definition lines_in :: "mb_event list \<Rightarrow> nat" where
  "lines_in tr = length (filter (\<lambda>e. e = Mb_line) tr)"

fun is_take :: "mb_event \<Rightarrow> bool" where
  "is_take (Mb_take i) = True" | "is_take _ = False"

definition takes_in :: "mb_event list \<Rightarrow> nat" where
  "takes_in tr = length (filter is_take tr)"

lemma mailbox_takes:
  "run_all mb_step tr m = Some m' \<Longrightarrow>
     takes_in tr + (if 0 < mb_fresh m' then 1 else 0) \<le> lines_in tr + (if 0 < mb_fresh m then 1 else 0)"
proof (induction tr arbitrary: m)
  case (Cons e tr)
  from Cons.prems obtain x where x: "mb_step e m = Some x" "run_all mb_step tr x = Some m'"
    by (auto split: bind_splits)
  from Cons.IH [OF x(2)] x(1) show ?case
    by (cases e) (auto simp: takes_in_def lines_in_def split: if_split_asm)
qed (simp add: takes_in_def lines_in_def)

text \<open>C8: the two threads implement the mailbox: every interleaving, with spurious wake-ups and
  time-outs, is a run of the mailbox in which each operation takes effect in one of its own moves;
  in particular a line that is given to the client is the one last published and has not been
  given before, and no more lines are given than published.\<close>

theorem threads_refine_mailbox:
  assumes "t_run mvs t_start = Some s"
  defines "tr \<equiv> trace_refinement.trace t_move t_events mvs t_start"
  shows "\<exists>m. run_all mb_step tr mb_start = Some m \<and> mb_id m = abs_id s \<and> mb_readers m = t_readers s
    \<and> takes_in tr \<le> lines_in tr"
proof -
  from sp_mailbox.trace_refines [OF _ mb_rel_start] assms obtain m
    where m: "run_all mb_step tr mb_start = Some m" "mb_rel s m" by (auto simp: t_run_all)
  with mailbox_takes [OF m(1)] show ?thesis by (auto simp: mb_rel_def mb_start_def split: if_split_asm)
qed

theorem threads_refine_mailbox_witness:
  "\<exists>s m. t_run losing_run t_start = Some s \<and> mb_readers m = t_readers s \<and> mb_id m = 2
    \<and> run_all mb_step [Mb_create, Mb_line, Mb_take 2] mb_start = Some m"
proof -
  have "\<exists>s. t_run losing_run t_start = Some s \<and> abs_id s = 2 \<and>
      trace_refinement.trace t_move t_events losing_run t_start = [Mb_create, Mb_line, Mb_take 2]"
    by (simp add: losing_run_def t_start_def io_go_def cl_go_def abs_id_def pending_def
        t_events_def lands_def takes_def)
  then obtain s where s: "t_run losing_run t_start = Some s" "abs_id s = 2"
    "trace_refinement.trace t_move t_events losing_run t_start = [Mb_create, Mb_line, Mb_take 2]" by blast
  from threads_refine_mailbox [OF s(1)] show ?thesis unfolding s(2,3) using s(1) by blast
qed

end
