(* ===== verification/Sockpush_Read.thy ===== *)
theory Sockpush_Read
  imports Sockpush
begin

text \<open>
  What \<open>sp_read\<close> guarantees: the well-formedness of the shared line buffer and of the reader
  list, an equation for every read that says which line it returns and what it leaves, the
  properties a caller sees (whole lines, no repetition, no loss on a late wake-up, and the line
  that is missed), and the contract on which the device manager builds.
\<close>

section \<open>Well-formed states\<close>

definition frame_ok :: "byte list \<Rightarrow> bool" where
  "frame_ok f \<longleftrightarrow> f \<noteq> [] \<and> length f \<le> 1024 \<and> last f = NUL
     \<and> NUL \<notin> set (butlast f) \<and> LF \<notin> set (butlast f)"

definition current_line :: "sp_item_t \<Rightarrow> byte list" where
  "current_line sp = take (read_size sp) (the (read_buf sp))"

definition wf_item :: "sp_item_t \<Rightarrow> bool" where
  "wf_item sp \<longleftrightarrow>
     read_buf sp \<noteq> None \<and> length (the (read_buf sp)) = 1024 \<and> read_size sp \<le> 1024
     \<and> (read_size sp = 0 \<or> frame_ok (current_line sp))
     \<and> length (reader_slots sp) = 1 \<and> length (sub_slots sp) = 1
     \<and> max_readers sp = SP_MAX_READERS \<and> readers sp \<le> max_readers sp \<and> subs sp = 0"

definition wf_world :: "'a sp_world_scheme \<Rightarrow> bool" where
  "wf_world w \<longleftrightarrow>
     wf_item (item w) \<and> finite (dom (rdr_cells w))
     \<and> card (dom (rdr_cells w)) = unat (readers (item w))
     \<and> (\<forall>a \<in> dom (rdr_cells w). a < rdr_next w)"

definition env_ok :: "sp_env \<Rightarrow> bool" where
  "env_ok E \<longleftrightarrow> (\<forall>i. list_all frame_ok (ev_before (os_event E i))
     \<and> list_all frame_ok (ev_missed (os_event E i))
     \<and> pred_option frame_ok (ev_during (os_event E i))
     \<and> ts_valid (ev_now (os_event E i)))"

lemma wf_item_SomeE:
  assumes "wf_item sp"
  obtains b where "read_buf sp = Some b" "length b = 1024"
  using assms by (auto simp: wf_item_def)

lemma sp_dispatch_no_subs [simp]: "subs (item w) = 0 \<Longrightarrow> sp_dispatch flag d n i w = Inr w"
  by (subst sp_dispatch.simps) simp

lemma wake_fields [simp]:
  "sun_path (sp_wake_readers sp) = sun_path sp" "fd_sock (sp_wake_readers sp) = fd_sock sp"
  "read_buf (sp_wake_readers sp) = read_buf sp" "read_size (sp_wake_readers sp) = read_size sp"
  "read_id (sp_wake_readers sp) = read_id sp" "readers (sp_wake_readers sp) = readers sp"
  "max_readers (sp_wake_readers sp) = max_readers sp"
  "waiting_readers (sp_wake_readers sp) = waiting_readers sp"
  "reader_slots (sp_wake_readers sp) = reader_slots sp"
  "subs (sp_wake_readers sp) = subs sp" "max_subs (sp_wake_readers sp) = max_subs sp"
  "sub_slots (sp_wake_readers sp) = sub_slots sp"
  by (simp_all add: sp_wake_readers_def)

lemma current_line_cong:
  "read_size sp = read_size sp' \<Longrightarrow> read_buf sp = read_buf sp' \<Longrightarrow> current_line sp = current_line sp'"
  by (simp add: current_line_def)

text \<open>The state after the publication of a line that fits.\<close>

definition publish_item :: "byte list \<Rightarrow> sp_item_t \<Rightarrow> sp_item_t" where
  "publish_item f sp = sp_wake_readers (sp\<lparr>read_id := read_id sp + 1, read_size := length f,
     read_buf := Some (f @ drop (length f) (the (read_buf sp)))\<rparr>)"

lemma publish_item_fields [simp]:
  "fd_sock (publish_item f sp) = fd_sock sp" "read_id (publish_item f sp) = read_id sp + 1"
  "read_size (publish_item f sp) = length f" "readers (publish_item f sp) = readers sp"
  "max_readers (publish_item f sp) = max_readers sp"
  "waiting_readers (publish_item f sp) = waiting_readers sp"
  "reader_slots (publish_item f sp) = reader_slots sp" "subs (publish_item f sp) = subs sp"
  "read_buf (publish_item f sp) = Some (f @ drop (length f) (the (read_buf sp)))"
  "sub_slots (publish_item f sp) = sub_slots sp"
  by (simp_all add: publish_item_def)

lemma current_line_publish [simp]: "current_line (publish_item f sp) = f"
  by (simp add: current_line_def)

lemma frame_okD: "frame_ok f \<Longrightarrow> f \<noteq> [] \<and> length f \<le> 1024"
  by (simp add: frame_ok_def)

lemma wf_publish_item: "wf_item sp \<Longrightarrow> frame_ok f \<Longrightarrow> wf_item (publish_item f sp)"
  using frame_okD [of f] by (auto simp: wf_item_def)

lemma sp_publish_eq:
  "wf_world w \<Longrightarrow> frame_ok f \<Longrightarrow>
     sp_publish f (length f) w = Inr (upd_item (publish_item f) w)"
  using frame_okD [of f]
  by (auto simp: sp_publish_def wf_world_def wf_item_def publish_item_def Let_def)

lemma wf_world_publish:
  "wf_world w \<Longrightarrow> frame_ok f \<Longrightarrow> wf_world (upd_item (publish_item f) w)"
  by (simp add: wf_world_def wf_publish_item)

lemma sp_publish_all_eq:
  "wf_world w \<Longrightarrow> list_all frame_ok fs \<Longrightarrow>
     sp_publish_all fs w = Inr (upd_item (fold publish_item fs) w)
     \<and> wf_world (upd_item (fold publish_item fs) w)"
proof (induction fs arbitrary: w)
  case Nil
  then show ?case by simp
next
  case (Cons f fs)
  then show ?case
    using Cons.IH [of "upd_item (publish_item f) w"] by (simp add: sp_publish_eq wf_world_publish)
qed

lemma fold_publish_fields [simp]:
  "readers (fold publish_item fs sp) = readers sp"
  "waiting_readers (fold publish_item fs sp) = waiting_readers sp"
  "fd_sock (fold publish_item fs sp) = fd_sock sp"
  "read_id (fold publish_item fs sp) = read_id sp + of_nat (length fs)"
  by (induction fs arbitrary: sp) auto

lemma current_line_fold:
  "current_line (fold publish_item fs sp) = (if fs = [] then current_line sp else last fs)"
  by (induction fs rule: rev_induct) auto

text \<open>One read, as its caller sees it: which line it returns, if any.\<close>

definition unread :: "'a sp_world_scheme \<Rightarrow> nat \<Rightarrow> bool" where
  "unread w a \<longleftrightarrow> map_option last_read (rdr_cells w a) \<noteq> Some (read_id (item w))"

definition read_outcome ::
    "rd_event \<Rightarrow> nat \<Rightarrow> nat \<Rightarrow> 'a sp_world_scheme \<Rightarrow> byte list option" where
  "read_outcome ev timeout a w =
     (let w1 = upd_item (fold publish_item (ev_before ev)) w in
      if ev_lock ev \<and> unread w1 a \<and> read_size (item w1) \<noteq> 0 then Some (current_line (item w1))
      else if ts_valid (sp_deadline timeout (ev_now ev)) \<and> \<not> ev_late ev then ev_during ev
      else None)"

lemma sub_loadread_eq:
  assumes "wf_world w" and "rdr_cells w a = Some r" and "length buf = 1024"
  shows "sub_loadread a buf 1024 w =
    Inr (int (read_size (item w)), current_line (item w) @ drop (read_size (item w)) buf,
         w\<lparr>rdr_cells := (rdr_cells w)(a \<mapsto> r\<lparr>last_read := read_id (item w)\<rparr>)\<rparr>)"
proof -
  from assms(1) obtain b where b: "read_buf (item w) = Some b" "length b = 1024"
    and s: "read_size (item w) \<le> 1024"
    by (auto simp: wf_world_def wf_item_def)
  have "to_int (int (read_size (item w))) = int (read_size (item w))"
    by (rule to_int_id) (use s in \<open>simp add: int_ok_def\<close>)
  with assms b s show ?thesis
    by (auto simp: sub_loadread_def rdr_cell_def current_line_def Let_def)
qed

lemma wf_world_cell:
  "wf_world w \<Longrightarrow> rdr_cells w a = Some r \<Longrightarrow> wf_world (w\<lparr>rdr_cells := (rdr_cells w)(a \<mapsto> r')\<rparr>)"
  by (auto simp: wf_world_def insert_absorb domI)

lemma wf_world_counters [simp]:
  "wf_world (w\<lparr>n_read := k\<rparr>) = wf_world w" "wf_world (w\<lparr>n_write := k\<rparr>) = wf_world w"
  "wf_world (w\<lparr>n_alloc := k\<rparr>) = wf_world w" "wf_world (w\<lparr>sock_out := so\<rparr>) = wf_world w"
  by (simp_all add: wf_world_def)

lemma wf_item_flags [simp]:
  "wf_item (sp\<lparr>waiting_readers := x\<rparr>) = wf_item sp"
  "wf_item (sp\<lparr>readline_inactive := y\<rparr>) = wf_item sp"
  "wf_item (sp\<lparr>readdone_inactive := z\<rparr>) = wf_item sp"
  by (simp_all add: wf_item_def current_line_def)

lemma current_line_flags [simp]:
  "current_line (sp\<lparr>waiting_readers := x\<rparr>) = current_line sp"
  "current_line (sp\<lparr>readline_inactive := y\<rparr>) = current_line sp"
  "current_line (sp\<lparr>readdone_inactive := z\<rparr>) = current_line sp"
  by (simp_all add: current_line_def)

lemma wf_world_item:
  "wf_world w \<Longrightarrow> wf_item sp \<Longrightarrow> readers sp = readers (item w) \<Longrightarrow> wf_world (w\<lparr>item := sp\<rparr>)"
  by (simp add: wf_world_def)

lemma wf_world_wf_item [simp, intro]: "wf_world w \<Longrightarrow> wf_item (item w)"
  by (simp add: wf_world_def)

text \<open>What no read changes.\<close>

definition same_rest :: "'a sp_world_scheme \<Rightarrow> 'a sp_world_scheme \<Rightarrow> bool" where
  "same_rest w w' \<longleftrightarrow>
     rdr_next w' = rdr_next w \<and> sock_out w' = sock_out w \<and> sub_calls w' = sub_calls w
     \<and> n_write w' = n_write w \<and> n_alloc w' = n_alloc w \<and> sp_world.more w' = sp_world.more w
     \<and> fd_sock (item w') = fd_sock (item w) \<and> readers (item w') = readers (item w)
     \<and> waiting_readers (item w') = waiting_readers (item w)"

definition wait_result :: "timespec \<Rightarrow> rd_event \<Rightarrow> byte list option" where
  "wait_result ts ev = (if ts_valid ts \<and> \<not> ev_late ev then ev_during ev else None)"

definition wait_publishes :: "timespec \<Rightarrow> rd_event \<Rightarrow> byte list list" where
  "wait_publishes ts ev = (if ts_valid ts then (case ev_during ev of None \<Rightarrow> [] | Some f \<Rightarrow> [f]) else [])"

lemma sp_read_wait_eq:
  fixes w :: "'a sp_world_scheme"
  assumes wf: "wf_world w" and cell: "rdr_cells w a = Some r" and buf: "length buf = 1024"
    and ev: "pred_option frame_ok (ev_during ev)" and idle: "waiting_readers (item w) = 0"
  shows "\<exists>w' :: 'a sp_world_scheme. sp_read_wait ts ev a buf 1024 w =
      Inr (case wait_result ts ev of None \<Rightarrow> 0 | Some f \<Rightarrow> int (length f),
           case wait_result ts ev of None \<Rightarrow> buf | Some f \<Rightarrow> f @ drop (length f) buf, w')
    \<and> wf_world w' \<and> same_rest w w' \<and> n_read w' = n_read w
    \<and> rdr_cells w' = (if wait_result ts ev = None then rdr_cells w
        else (rdr_cells w)(a \<mapsto> r\<lparr>last_read := read_id (item w')\<rparr>))
    \<and> read_id (item w') = read_id (item w) + of_nat (length (wait_publishes ts ev))
    \<and> current_line (item w') = last (current_line (item w) # wait_publishes ts ev)"
proof -
  let ?w1 = "upd_item (\<lambda>sp. sp\<lparr>waiting_readers := waiting_readers sp + 1,
                                readline_inactive := True\<rparr>) w"
  have wf1: "wf_world ?w1" using wf by (simp add: wf_world_item)
  show ?thesis
  proof (cases "ev_during ev")
    case None
    then show ?thesis using wf idle
      by (simp add: sp_read_wait_def sp_wait_test_def EINVAL_def ETIMEDOUT_def wait_result_def
          wait_publishes_def same_rest_def Let_def wf_world_item)
  next
    case (Some f)
    then have f: "frame_ok f" using ev by simp
    show ?thesis
    proof (cases "ts_valid ts")
      case False
      then show ?thesis using Some wf idle
        by (simp add: sp_read_wait_def sp_wait_test_def EINVAL_def wait_result_def
            wait_publishes_def same_rest_def Let_def wf_world_item)
    next
      case True
      let ?w2 = "upd_item (publish_item f) ?w1"
      have pub: "sp_publish f (length f) ?w1 = Inr ?w2"
        using wf1 f by (rule sp_publish_eq)
      have wf2: "wf_world ?w2" using wf1 f by (rule wf_world_publish)
      have load: "sub_loadread a buf 1024 ?w2 = Inr (int (length f), f @ drop (length f) buf,
          ?w2\<lparr>rdr_cells := (rdr_cells w)(a \<mapsto> r\<lparr>last_read := read_id (item w) + 1\<rparr>)\<rparr>)"
        using sub_loadread_eq [OF wf2 _ buf, of a r] cell by simp
      have wf3: "wf_world (?w2\<lparr>rdr_cells := (rdr_cells w)(a \<mapsto> r')\<rparr>)" for r'
        using wf_world_cell [OF wf2, of a r r'] cell by simp
      show ?thesis using Some True pub load wf f idle wf_world_cell [OF wf cell]
        by (simp add: wf_publish_item sp_read_wait_def sp_wait_test_def ETIMEDOUT_def wait_result_def
            wait_publishes_def same_rest_def Let_def wf_world_item)
    qed
  qed
qed

definition wf_idle :: "'a sp_world_scheme \<Rightarrow> bool" where
  "wf_idle w \<longleftrightarrow> wf_world w \<and> waiting_readers (item w) = 0"

lemma frame_unread_size:
  "wf_world w \<Longrightarrow> read_size (item w) \<noteq> 0 \<Longrightarrow> frame_ok (current_line (item w))"
  by (auto simp: wf_world_def wf_item_def)

lemma current_line_length:
  "wf_world w \<Longrightarrow> length (current_line (item w)) = read_size (item w)"
  by (auto simp: wf_world_def wf_item_def current_line_def)

text \<open>The lines an event holds, and those that are published in the course of one read: a read that
  finds a line does not wait.\<close>

definition ev_lines :: "rd_event \<Rightarrow> byte list list" where
  "ev_lines ev = ev_before ev @ ev_missed ev @ (case ev_during ev of None \<Rightarrow> [] | Some f \<Rightarrow> [f])"

definition read_publishes :: "rd_event \<Rightarrow> nat \<Rightarrow> nat \<Rightarrow> 'a sp_world_scheme \<Rightarrow> byte list list" where
  "read_publishes ev timeout a w =
     (let w1 = upd_item (fold publish_item (ev_before ev)) w in
      if ev_lock ev \<and> unread w1 a \<and> read_size (item w1) \<noteq> 0 then ev_before ev
      else ev_before ev @ ev_missed ev
           @ wait_publishes (sp_deadline timeout (ev_now ev)) ev)"

lemma read_outcome_wait:
  "read_outcome ev t a w =
     (let w1 = upd_item (fold publish_item (ev_before ev)) w in
      if ev_lock ev \<and> unread w1 a \<and> read_size (item w1) \<noteq> 0 then Some (current_line (item w1))
      else wait_result (sp_deadline t (ev_now ev)) ev)"
  by (simp add: read_outcome_def wait_result_def Let_def)

lemma sp_read_eq:
  fixes w :: "'a sp_world_scheme"
  assumes wf: "wf_idle w" and env: "env_ok E" and cell: "rdr_cells w a = Some r"
    and buf: "length buf = 1024"
  defines "ev \<equiv> os_event E (n_read w)"
  shows "\<exists>w' :: 'a sp_world_scheme. sp_read E (Some a) (Some buf) 1024 t w =
      Inr (case read_outcome ev t a w of None \<Rightarrow> 0 | Some f \<Rightarrow> int (length f),
           Some (case read_outcome ev t a w of None \<Rightarrow> buf | Some f \<Rightarrow> f @ drop (length f) buf), w')
    \<and> wf_idle w' \<and> same_rest w w' \<and> n_read w' = Suc (n_read w)
    \<and> (\<exists>r'. rdr_cells w' = (rdr_cells w)(a \<mapsto> r') \<and>
        last_read r' = (if read_outcome ev t a w \<noteq> None then read_id (item w')
                        else if ev_lock ev then read_id (item w) + of_nat (length (ev_before ev))
                        else last_read r))
    \<and> read_id (item w') = read_id (item w) + of_nat (length (read_publishes ev t a w))
    \<and> current_line (item w') = last (current_line (item w) # read_publishes ev t a w)"
proof -
  have ev: "list_all frame_ok (ev_before ev)" "list_all frame_ok (ev_missed ev)"
    "pred_option frame_ok (ev_during ev)"
    using env by (auto simp: env_ok_def ev_def)
  define ts where "ts = sp_deadline t (ev_now ev)"
  define w0 where "w0 = w\<lparr>n_read := Suc (n_read w)\<rparr>"
  define w1 where "w1 = upd_item (fold publish_item (ev_before ev)) w0"
  have w: "wf_world w" and idle: "waiting_readers (item w) = 0"
    using wf by (auto simp: wf_idle_def)
  have b: "sp_publish_all (ev_before ev) w0 = Inr w1" and wf1: "wf_world w1"
    using sp_publish_all_eq [of w0 "ev_before ev"] w ev by (auto simp: w0_def w1_def)
  have cell1: "rdr_cells w1 a = Some r" by (simp add: w1_def w0_def cell)
  have unr: "unread (upd_item (fold publish_item (ev_before ev)) w) a = (last_read r \<noteq> read_id (item w1))"
    by (simp add: unread_def w1_def w0_def cell)
  show ?thesis
  proof (cases "ev_lock ev \<and> last_read r \<noteq> read_id (item w1) \<and> read_size (item w1) \<noteq> 0")
    case True
    have load: "sub_loadread a buf 1024 w1 =
        Inr (int (read_size (item w1)), current_line (item w1) @ drop (read_size (item w1)) buf,
             w1\<lparr>rdr_cells := (rdr_cells w1)(a \<mapsto> r\<lparr>last_read := read_id (item w1)\<rparr>)\<rparr>)"
      using sub_loadread_eq [OF wf1 cell1 buf] .
    have out: "read_outcome ev t a w = Some (current_line (item w1))"
      and pubs: "read_publishes ev t a w = ev_before ev"
      using True unr by (simp_all add: read_outcome_def read_publishes_def Let_def w1_def w0_def)
    define w' where "w' = w1\<lparr>rdr_cells := (rdr_cells w1)(a \<mapsto> r\<lparr>last_read := read_id (item w1)\<rparr>)\<rparr>"
    have "sp_read E (Some a) (Some buf) 1024 t w =
        Inr (int (length (current_line (item w1))),
             Some (current_line (item w1) @ drop (length (current_line (item w1))) buf), w')"
      using True load b cell1 current_line_length [OF wf1]
      by (simp add: sp_read_def ev_def [symmetric] w0_def [symmetric] rdr_cell_def Let_def w'_def)
    moreover have "wf_idle w'" "same_rest w w'" "n_read w' = Suc (n_read w)"
      using wf_world_cell [OF wf1 cell1] idle
      by (simp_all add: wf_idle_def same_rest_def w'_def) (simp_all add: w1_def w0_def)
    moreover have "read_id (item w') = read_id (item w) + of_nat (length (ev_before ev))"
      and "rdr_cells w' = (rdr_cells w)(a \<mapsto> r\<lparr>last_read := read_id (item w')\<rparr>)"
      and "current_line (item w') = last (current_line (item w) # ev_before ev)"
      and "current_line (item w1) = current_line (item w')"
      by (simp_all add: w'_def w1_def w0_def current_line_fold)
    ultimately show ?thesis
      by (intro exI [of _ w'] conjI exI [of _ "r\<lparr>last_read := read_id (item w')\<rparr>"])
         (simp_all add: out pubs)
  next
    case False
    define r1 where "r1 = (if ev_lock ev \<and> last_read r \<noteq> read_id (item w1)
                           then r\<lparr>last_read := read_id (item w1)\<rparr> else r)"
    define w1' where "w1' = w1\<lparr>rdr_cells := (rdr_cells w)(a \<mapsto> r1)\<rparr>"
    define w2 where "w2 = upd_item (fold publish_item (ev_missed ev)) w1'"
    have cells1: "rdr_cells w1 = rdr_cells w" by (simp add: w1_def w0_def)
    have wf1': "wf_world w1'"
      using wf_world_cell [OF wf1 cell1, of r1] by (simp add: w1'_def cells1)
    have step1: "(if ev_lock ev \<and> last_read r \<noteq> read_id (item w1) then sub_loadread a buf 1024 w1
        else Inr (0, buf, w1)) = Inr (0, buf, w1')"
      using False sub_loadread_eq [OF wf1 cell1 buf] current_line_length [OF wf1] cell
      by (auto simp: w1'_def r1_def cells1 [symmetric] map_upd_triv)
    have m: "sp_publish_all (ev_missed ev) w1' = Inr w2" and wf2: "wf_world w2"
      using sp_publish_all_eq [OF wf1' ev(2)] by (auto simp: w2_def)
    have cell2: "rdr_cells w2 a = Some r1" and idle2: "waiting_readers (item w2) = 0"
      by (simp_all add: w2_def w1'_def w1_def w0_def idle)
    from sp_read_wait_eq [OF wf2 cell2 buf ev(3) idle2, of ts]
    obtain w' where w': "sp_read_wait ts ev a buf 1024 w2 =
      Inr (case wait_result ts ev of None \<Rightarrow> 0 | Some f \<Rightarrow> int (length f),
           case wait_result ts ev of None \<Rightarrow> buf | Some f \<Rightarrow> f @ drop (length f) buf, w')"
      and wf': "wf_world w'" and rest: "same_rest w2 w'" "n_read w' = n_read w2"
      and cells': "rdr_cells w' = (if wait_result ts ev = None then rdr_cells w2
        else (rdr_cells w2)(a \<mapsto> r1\<lparr>last_read := read_id (item w')\<rparr>))"
      and rid: "read_id (item w') = read_id (item w2) + of_nat (length (wait_publishes ts ev))"
      and cl: "current_line (item w') = last (current_line (item w2) # wait_publishes ts ev)"
      by blast
    have out: "read_outcome ev t a w = wait_result ts ev"
      and pubs: "read_publishes ev t a w = ev_before ev @ ev_missed ev @ wait_publishes ts ev"
      using False unr
      by (auto simp: read_outcome_wait read_publishes_def Let_def w1_def w0_def ts_def)
    have "sp_read E (Some a) (Some buf) 1024 t w =
      Inr (case wait_result ts ev of None \<Rightarrow> 0 | Some f \<Rightarrow> int (length f),
           Some (case wait_result ts ev of None \<Rightarrow> buf | Some f \<Rightarrow> f @ drop (length f) buf), w')"
      using b m w' step1 cell1
      by (simp add: sp_read_def ev_def [symmetric] w0_def [symmetric] ts_def [symmetric]
          rdr_cell_def Let_def)
    moreover have "wf_idle w'" "same_rest w w'" "n_read w' = Suc (n_read w)"
      using wf' rest idle by (auto simp: wf_idle_def same_rest_def w2_def w1'_def w1_def w0_def)
    moreover have "read_id (item w') = read_id (item w) + of_nat (length (read_publishes ev t a w))"
      by (simp add: rid pubs w2_def w1'_def w1_def w0_def)
    moreover have "current_line (item w') = last (current_line (item w) # read_publishes ev t a w)"
      by (auto simp: cl pubs w2_def w1'_def w1_def w0_def current_line_fold)
    moreover have "rdr_cells w' = (rdr_cells w)(a \<mapsto> (if wait_result ts ev = None then r1
        else r1\<lparr>last_read := read_id (item w')\<rparr>))"
      by (simp add: cells' w2_def w1'_def)
    moreover have "last_read r1 = (if ev_lock ev then read_id (item w) + of_nat (length (ev_before ev))
        else last_read r)"
      by (auto simp: r1_def w1_def w0_def)
    ultimately show ?thesis
      by (intro exI [of _ w'] conjI exI [of _ "if wait_result ts ev = None then r1
        else r1\<lparr>last_read := read_id (item w')\<rparr>"]) (simp_all add: out)
  qed
qed

lemma read_outcome_frame_ok:
  assumes "wf_idle w" and "env_ok E" and "ev = os_event E (n_read w)"
    and "read_outcome ev t a w = Some f"
  shows "frame_ok f"
proof -
  have w: "wf_world w" and ev: "list_all frame_ok (ev_before ev)" "pred_option frame_ok (ev_during ev)"
    using assms(1-3) by (auto simp: wf_idle_def env_ok_def)
  have "wf_world (upd_item (fold publish_item (ev_before ev)) w)"
    using sp_publish_all_eq [OF w ev(1)] by blast
  from frame_unread_size [OF this] ev(2) assms(4) show ?thesis
    by (auto simp: read_outcome_def Let_def split: if_splits)
qed

text \<open>
  The state \<open>sp_open\<close> leaves after the I/O thread has set up its reference variables (the
  thread's buffer \<open>linebuf\<close> becomes the shared one).
\<close>

definition sp_thread_init :: "byte list \<Rightarrow> sp_item_t \<Rightarrow> sp_item_t" where
  "sp_thread_init linebuf sp =
     sp\<lparr>readline_inactive := True, read_buf := Some linebuf, read_size := 0, read_id := 1\<rparr>"

definition sp_opened :: "int \<Rightarrow> sp_item_t" where
  "sp_opened fd = sp_calloc\<lparr>fd_sock := fd, max_readers := SP_MAX_READERS, max_subs := SP_MAX_SUBSCRIBERS\<rparr>"

definition sp_start :: "sp_world" where
  "sp_start = \<lparr>item = sp_thread_init (replicate 1024 NUL) (sp_opened 3), rdr_cells = Map.empty,
     rdr_next = 0, sock_out = [], sub_calls = [], n_write = 0, n_alloc = 0, n_read = 0\<rparr>"

definition sp_one_reader :: "sp_world" where
  "sp_one_reader = sp_start\<lparr>item := (item sp_start)\<lparr>readers := 1, reader_slots := [Some 0]\<rparr>,
     rdr_cells := [0 \<mapsto> \<lparr>parent = SP_ITEM, last_read = 1\<rparr>], rdr_next := 1, n_alloc := 1\<rparr>"

definition ev_quiet :: rd_event where
  "ev_quiet = \<lparr>ev_now = Timespec 100 0, ev_before = [], ev_lock = True, ev_missed = [],
     ev_during = None, ev_late = False\<rparr>"

definition env_of :: "rd_event list \<Rightarrow> sp_env" where
  "env_of evs = \<lparr>os_write = (\<lambda>_ d. Some (int (length d))), os_alloc = (\<lambda>_. True),
     os_user = (\<lambda>_. True),
     os_event = (\<lambda>i. if i < length evs then evs ! i else ev_quiet)\<rparr>"

definition ev_line :: "byte list \<Rightarrow> rd_event" where
  "ev_line f = ev_quiet\<lparr>ev_during := Some f\<rparr>"

lemmas sp_demo_defs = sp_thread_init_def sp_opened_def sp_calloc_def sp_start_def sp_one_reader_def
  ev_quiet_def env_of_def ev_line_def SP_MAX_READERS_def SP_MAX_SUBSCRIBERS_def

lemma wf_start: "wf_idle sp_start"
  by (simp add: sp_demo_defs wf_idle_def wf_world_def wf_item_def)

lemma wf_one_reader: "wf_idle sp_one_reader"
  by (simp add: sp_demo_defs wf_idle_def wf_world_def wf_item_def)

definition event_ok :: "rd_event \<Rightarrow> bool" where
  "event_ok ev \<longleftrightarrow> list_all frame_ok (ev_before ev) \<and> list_all frame_ok (ev_missed ev)
     \<and> pred_option frame_ok (ev_during ev) \<and> ts_valid (ev_now ev)"

lemma env_ok_env_of: "list_all event_ok evs \<Longrightarrow> env_ok (env_of evs)"
  by (auto simp: env_ok_def env_of_def event_ok_def ev_quiet_def ts_valid_def list_all_length)

lemma event_ok_line [simp]: "event_ok (ev_line f) = frame_ok f"
  by (auto simp: event_ok_def ev_line_def ev_quiet_def ts_valid_def)

lemma frame_ok_snoc: "frame_ok (s @ [NUL]) \<longleftrightarrow> length s < 1024 \<and> NUL \<notin> set s \<and> LF \<notin> set s"
  by (auto simp: frame_ok_def Suc_le_eq)

lemma sp_read_ok:
  fixes w :: "'a sp_world_scheme"
  assumes "wf_idle w" and "env_ok E" and "rdr_cells w a = Some r" and "length buf = 1024"
  shows "\<exists>rc buf' w'. sp_read E (Some a) (Some buf) 1024 t w = Inr (rc, Some buf', w')
    \<and> wf_idle w' \<and> length buf' = 1024 \<and> dom (rdr_cells w') = dom (rdr_cells w)
    \<and> (case read_outcome (os_event E (n_read w)) t a w of
         None \<Rightarrow> rc = 0 \<and> buf' = buf
       | Some f \<Rightarrow> frame_ok f \<and> rc = int (length f) \<and> take (length f) buf' = f
           \<and> f = current_line (item w')
           \<and> map_option last_read (rdr_cells w' a) = Some (read_id (item w')))"
proof -
  define ev where "ev = os_event E (n_read w)"
  from sp_read_eq [OF assms, of t] obtain w' r' where
    rd: "sp_read E (Some a) (Some buf) 1024 t w =
      Inr (case read_outcome ev t a w of None \<Rightarrow> 0 | Some f \<Rightarrow> int (length f),
           Some (case read_outcome ev t a w of None \<Rightarrow> buf | Some f \<Rightarrow> f @ drop (length f) buf), w')"
    and wf': "wf_idle w'" and cells: "rdr_cells w' = (rdr_cells w)(a \<mapsto> r')"
    and lr: "read_outcome ev t a w \<noteq> None \<Longrightarrow> last_read r' = read_id (item w')"
    and cl: "current_line (item w') = last (current_line (item w) # read_publishes ev t a w)"
    unfolding ev_def [symmetric] by (auto split: if_splits)
  have dom: "dom (rdr_cells w') = dom (rdr_cells w)"
    using cells assms(3) by auto
  show ?thesis
  proof (cases "read_outcome ev t a w")
    case None
    with rd wf' dom assms(4) show ?thesis by (simp add: ev_def)
  next
    case (Some f)
    have f: "frame_ok f" using read_outcome_frame_ok [OF assms(1,2) ev_def Some] .
    have "f = current_line (item w')"
      using Some cl by (auto simp: read_outcome_wait read_publishes_def wait_result_def
          wait_publishes_def current_line_fold Let_def split: if_splits)
    with Some rd wf' dom f lr cells frame_okD [OF f] assms(4) show ?thesis
      by (simp add: ev_def)
  qed
qed

definition demo_line :: "byte list" where
  "demo_line = ''ok'' @ [NUL]"

lemma demo_line [simp]: "frame_ok demo_line" "length demo_line = 3"
  by (simp_all add: demo_line_def frame_ok_def)

lemma one_reader_cell [simp]: "rdr_cells sp_one_reader 0 = Some \<lparr>parent = SP_ITEM, last_read = 1\<rparr>"
  by (simp add: sp_one_reader_def)

lemma outcome_line_one_reader:
  "read_outcome (os_event (env_of (ev_line f # evs)) (n_read sp_one_reader)) t 0 sp_one_reader =
     (if ts_valid (sp_deadline t (Timespec 100 0)) then Some f else None)"
  by (simp add: sp_demo_defs read_outcome_def unread_def Let_def)

lemma deadline_500: "ts_valid (sp_deadline 500 (Timespec 100 0))"
  by (simp add: sp_deadline_def ts_valid_def)

text \<open>C12: \<open>sp_read\<close> into a buffer of 1024 bytes never runs into undefined behaviour, keeps the
  handle well formed and the reader alive, and returns exactly the line that
  \<open>read_outcome\<close> names: the line on the buffer if the lock was free and the reader had not
  seen it, else the line announced during the wait, whole and terminated, with its length;
  or 0 and an untouched buffer.\<close>

theorem sp_read_spec:
  fixes w :: "'a sp_world_scheme"
  assumes "wf_idle w" and "env_ok E" and "rdr_cells w a = Some r" and "length buf = 1024"
  shows "\<exists>rc buf' w'. sp_read E (Some a) (Some buf) 1024 t w = Inr (rc, Some buf', w')
    \<and> wf_idle w' \<and> length buf' = 1024 \<and> dom (rdr_cells w') = dom (rdr_cells w)
    \<and> (case read_outcome (os_event E (n_read w)) t a w of
         None \<Rightarrow> rc = 0 \<and> buf' = buf
       | Some f \<Rightarrow> frame_ok f \<and> rc = int (length f) \<and> take (length f) buf' = f
           \<and> f = current_line (item w')
           \<and> map_option last_read (rdr_cells w' a) = Some (read_id (item w')))"
  by (rule sp_read_ok [OF assms])

theorem sp_read_spec_witness:
  "\<exists>buf' w'. sp_read (env_of [ev_line demo_line]) (Some 0) (Some (replicate 1024 NUL)) 1024 500
       sp_one_reader = Inr (3, Some buf', w') \<and> take 3 buf' = demo_line"
proof -
  let ?f = demo_line
  have "env_ok (env_of [ev_line ?f])"
    by (rule env_ok_env_of) simp
  from sp_read_spec [OF wf_one_reader this one_reader_cell, of "replicate 1024 NUL" 500]
  show ?thesis
    by (auto simp: outcome_line_one_reader deadline_500)
qed

text \<open>No line is delivered twice: after a read that returned a line, and with no line
  published in between, the next read returns 0 and leaves its buffer alone.\<close>

theorem sp_read_no_repeat:
  fixes w :: "'a sp_world_scheme"
  assumes wf: "wf_idle w" and env: "env_ok E" and cell: "rdr_cells w a = Some r"
    and buf: "length buf = 1024"
    and first: "sp_read E (Some a) (Some buf) 1024 t w = Inr (rc, Some buf', w')" and "0 < rc"
    and quiet: "ev_before (os_event E (n_read w')) = []" "ev_during (os_event E (n_read w')) = None"
  shows "\<exists>w''. sp_read E (Some a) (Some buf') 1024 t' w' = Inr (0, Some buf', w'')"
proof -
  from sp_read_ok [OF wf env cell buf, of t] first \<open>0 < rc\<close>
  have wf': "wf_idle w'" and buf': "length buf' = 1024"
    and seen: "map_option last_read (rdr_cells w' a) = Some (read_id (item w'))"
    by (auto split: option.splits)
  then obtain r' where cell': "rdr_cells w' a = Some r'" by auto
  have "read_outcome (os_event E (n_read w')) t' a w' = None"
    using quiet seen by (simp add: read_outcome_def unread_def Let_def)
  with sp_read_ok [OF wf' env cell' buf', of t'] show ?thesis by auto
qed

theorem sp_read_no_repeat_witness:
  "\<exists>buf' w' w''. sp_read (env_of [ev_line demo_line]) (Some 0) (Some (replicate 1024 NUL)) 1024 500
        sp_one_reader = Inr (3, Some buf', w')
     \<and> sp_read (env_of [ev_line demo_line]) (Some 0) (Some buf') 1024 500 w' = Inr (0, Some buf', w'')"
proof -
  let ?E = "env_of [ev_line demo_line]"
  have env: "env_ok ?E" by (rule env_ok_env_of) simp
  have buf: "length (replicate 1024 NUL) = 1024" by simp
  from sp_read_eq [OF wf_one_reader env one_reader_cell buf, of 500]
  obtain buf' w' where rd: "sp_read ?E (Some 0) (Some (replicate 1024 NUL)) 1024 500 sp_one_reader
      = Inr (3, Some buf', w')" and n: "n_read w' = Suc (n_read sp_one_reader)"
    by (auto simp: outcome_line_one_reader deadline_500)
  have "n_read w' = 1" using n by (simp add: sp_one_reader_def sp_start_def)
  then have "os_event ?E (n_read w') = ev_quiet" by (simp add: env_of_def)
  with sp_read_no_repeat [OF wf_one_reader env one_reader_cell buf rd, of 500] rd
  show ?thesis by (auto simp: ev_quiet_def)
qed

text \<open>A line that arrives while the wait is timing out is not lost: the read returns 0, and
  the next one returns the line at once, from the buffer.\<close>

theorem sp_read_late_line:
  fixes w :: "'a sp_world_scheme"
  assumes wf: "wf_idle w" and env: "env_ok E" and cell: "rdr_cells w a = Some r"
    and seen: "last_read r = read_id (item w)" and buf: "length buf = 1024"
    and late: "os_event E (n_read w) = \<lparr>ev_now = now, ev_before = [], ev_lock = lk, ev_missed = [],
        ev_during = Some f, ev_late = True\<rparr>"
    and valid: "ts_valid (sp_deadline t now)"
    and nxt: "ev_before (os_event E (Suc (n_read w))) = []" "ev_lock (os_event E (Suc (n_read w)))"
  shows "\<exists>w' buf'' w''. sp_read E (Some a) (Some buf) 1024 t w = Inr (0, Some buf, w')
      \<and> sp_read E (Some a) (Some buf) 1024 t' w' = Inr (int (length f), Some buf'', w'')
      \<and> take (length f) buf'' = f"
proof -
  have out: "read_outcome (os_event E (n_read w)) t a w = None"
    using late seen cell by (simp add: read_outcome_def unread_def Let_def)
  have pubs: "read_publishes (os_event E (n_read w)) t a w = [f]"
    using late seen cell valid
    by (simp add: read_publishes_def unread_def Let_def wait_publishes_def)
  have f: "frame_ok f" using env late by (auto simp: env_ok_def dest: spec [of _ "n_read w"])
  from sp_read_eq [OF wf env cell buf, of t] out pubs late seen
  obtain w' r' where rd: "sp_read E (Some a) (Some buf) 1024 t w = Inr (0, Some buf, w')"
    and wf': "wf_idle w'" and n: "n_read w' = Suc (n_read w)"
    and cell': "rdr_cells w' a = Some r'" and lr: "last_read r' = read_id (item w)"
    and rid: "read_id (item w') = read_id (item w) + 1" and cl: "current_line (item w') = f"
    by (auto split: if_splits)
  have "read_size (item w') = length f"
    using cl current_line_length [of w'] wf' by (auto simp: wf_idle_def)
  then have "read_size (item w') \<noteq> 0" using frame_okD [OF f] by simp
  then have "read_outcome (os_event E (n_read w')) t' a w' = Some f"
    using nxt n cell' lr rid cl by (simp add: read_outcome_def unread_def Let_def)
  with sp_read_ok [OF wf' env cell' buf, of t'] rd show ?thesis by auto
qed

theorem sp_read_late_line_witness:
  "\<exists>w' buf'' w''. sp_read (env_of [(ev_line demo_line)\<lparr>ev_late := True\<rparr>]) (Some 0)
        (Some (replicate 1024 NUL)) 1024 500 sp_one_reader = Inr (0, Some (replicate 1024 NUL), w')
     \<and> sp_read (env_of [(ev_line demo_line)\<lparr>ev_late := True\<rparr>]) (Some 0)
        (Some (replicate 1024 NUL)) 1024 500 w' = Inr (3, Some buf'', w'')
     \<and> take 3 buf'' = demo_line"
proof -
  let ?E = "env_of [(ev_line demo_line)\<lparr>ev_late := True\<rparr>]"
  have env: "env_ok ?E"
    by (rule env_ok_env_of) (simp add: event_ok_def ev_line_def ev_quiet_def ts_valid_def)
  have "read_id (item sp_one_reader) = 1" "n_read sp_one_reader = 0" by (simp_all add: sp_demo_defs)
  with sp_read_late_line [OF wf_one_reader env one_reader_cell, of "replicate 1024 NUL" "Timespec 100 0" True
      demo_line 500 500] deadline_500
  show ?thesis by (auto simp: env_of_def ev_line_def ev_quiet_def)
qed

text \<open>C33: a line that is published after \<open>sp_read\<close> has looked at the buffer and before it waits
  is missed by that call: although the line is on the buffer and unread, the call sleeps until
  its time-out and returns 0.\<close>

theorem sp_read_misses_line:
  fixes w :: "'a sp_world_scheme"
  assumes wf: "wf_idle w" and env: "env_ok E" and cell: "rdr_cells w a = Some r"
    and seen: "last_read r = read_id (item w)" and buf: "length buf = 1024"
    and ev: "ev_before (os_event E (n_read w)) = []" "ev_missed (os_event E (n_read w)) = [f]"
      "ev_during (os_event E (n_read w)) = None"
  shows "\<exists>w'. sp_read E (Some a) (Some buf) 1024 t w = Inr (0, Some buf, w')
      \<and> unread w' a \<and> current_line (item w') = f"
proof -
  have out: "read_outcome (os_event E (n_read w)) t a w = None"
    using ev seen cell by (simp add: read_outcome_def unread_def Let_def)
  have pubs: "read_publishes (os_event E (n_read w)) t a w = [f]"
    using ev seen cell by (simp add: read_publishes_def unread_def Let_def wait_publishes_def)
  from sp_read_eq [OF wf env cell buf, of t] out pubs ev seen
  obtain w' r' where rd: "sp_read E (Some a) (Some buf) 1024 t w = Inr (0, Some buf, w')"
    and "rdr_cells w' a = Some r'" "last_read r' = read_id (item w)"
    and "read_id (item w') = read_id (item w) + 1" "current_line (item w') = f"
    by (auto split: if_splits)
  then show ?thesis by (auto simp: unread_def)
qed

theorem sp_read_misses_line_witness:
  "\<exists>w'. sp_read (env_of [ev_quiet\<lparr>ev_missed := [demo_line]\<rparr>]) (Some 0)
        (Some (replicate 1024 NUL)) 1024 500 sp_one_reader = Inr (0, Some (replicate 1024 NUL), w')
     \<and> unread w' 0 \<and> current_line (item w') = demo_line"
proof -
  let ?E = "env_of [ev_quiet\<lparr>ev_missed := [demo_line]\<rparr>]"
  have env: "env_ok ?E"
    by (rule env_ok_env_of) (simp add: event_ok_def ev_quiet_def ts_valid_def)
  have "read_id (item sp_one_reader) = 1" "n_read sp_one_reader = 0" by (simp_all add: sp_demo_defs)
  with sp_read_misses_line [OF wf_one_reader env one_reader_cell, of "replicate 1024 NUL"
      demo_line 500]
  show ?thesis by (auto simp: env_of_def ev_quiet_def)
qed

section \<open>The contract of a line source\<close>

text \<open>
  What the device manager relies on when it reads: a read does not fail, keeps the source well
  formed, and when it returns bytes they are one terminated line. Then the buffer is a C string
  and may be handed to a parser.
\<close>

locale line_source =
  fixes wf :: "'w \<Rightarrow> bool"
    and rd :: "'w \<Rightarrow> byte list \<Rightarrow> (int \<times> byte list \<times> 'w) res"
    and cap :: nat
  assumes rd_total: "wf w \<Longrightarrow> length buf = cap \<Longrightarrow> \<exists>rc buf' w'. rd w buf = Inr (rc, buf', w')"
    and rd_wf: "wf w \<Longrightarrow> length buf = cap \<Longrightarrow> rd w buf = Inr (rc, buf', w') \<Longrightarrow>
      wf w' \<and> length buf' = cap"
    and rd_line: "wf w \<Longrightarrow> length buf = cap \<Longrightarrow> rd w buf = Inr (rc, buf', w') \<Longrightarrow> 0 < rc \<Longrightarrow>
      frame_ok (take (nat rc) buf') \<and> length (take (nat rc) buf') = nat rc"
begin

lemma line_cstring:
  assumes "wf w" and "length buf = cap" and "rd w buf = Inr (rc, buf', w')" and "0 < rc"
  shows "cstring buf' = Inr (butlast (take (nat rc) buf'))"
proof -
  let ?f = "take (nat rc) buf'"
  have f: "?f \<noteq> []" "last ?f = NUL" "NUL \<notin> set (butlast ?f)"
    using rd_line [OF assms] by (auto simp: frame_ok_def)
  then have "?f = butlast ?f @ [NUL]" by (metis append_butlast_last_id)
  then have "buf' = butlast ?f @ NUL # drop (nat rc) buf'"
    by (metis append_take_drop_id append.assoc append_Cons append_Nil)
  then show ?thesis using cstring_append [OF f(3), of "drop (nat rc) buf'"] by simp
qed

text \<open>Any number of reads in a row.\<close>

primrec rd_times :: "nat \<Rightarrow> 'w \<Rightarrow> byte list \<Rightarrow> (byte list \<times> 'w) res" where
  "rd_times 0 w buf = Inr (buf, w)"
| "rd_times (Suc n) w buf = rbind (rd w buf) (\<lambda>(rc, buf, w). rd_times n w buf)"

lemma rd_times_total:
  "wf w \<Longrightarrow> length buf = cap \<Longrightarrow>
     \<exists>buf' w'. rd_times n w buf = Inr (buf', w') \<and> wf w' \<and> length buf' = cap"
proof (induction n arbitrary: w buf)
  case 0
  then show ?case by simp
next
  case (Suc n)
  from rd_total [OF Suc.prems] obtain rc buf' w' where r: "rd w buf = Inr (rc, buf', w')"
    by blast
  with rd_wf [OF Suc.prems r] Suc.IH [of w' buf'] show ?case by simp
qed

end

definition sp_read_line ::
    "sp_env \<Rightarrow> nat \<Rightarrow> nat \<Rightarrow> 'a sp_world_scheme \<Rightarrow> byte list \<Rightarrow> (int \<times> byte list \<times> 'a sp_world_scheme) res" where
  "sp_read_line E a t w buf =
     rbind (sp_read E (Some a) (Some buf) 1024 t w) (\<lambda>(rc, b, w).
     rbind (deref b) (\<lambda>b. Inr (rc, b, w)))"

lemma sp_read_shape:
  assumes "env_ok E" and "wf_idle w" and "rdr_cells w a \<noteq> None" and "length buf = 1024"
  obtains rc buf' w' where "sp_read E (Some a) (Some buf) 1024 t w = Inr (rc, Some buf', w')"
    and "wf_idle w'" and "length buf' = 1024" and "rdr_cells w' a \<noteq> None"
    and "rc = 0 \<or> frame_ok (take (nat rc) buf') \<and> length (take (nat rc) buf') = nat rc"
proof -
  from assms(3) obtain r where r: "rdr_cells w a = Some r" by auto
  from sp_read_ok [OF assms(2,1) r assms(4), of t] obtain rc buf' w'
    where rd: "sp_read E (Some a) (Some buf) 1024 t w = Inr (rc, Some buf', w')"
      and wf': "wf_idle w'" and len: "length buf' = 1024"
      and dom: "dom (rdr_cells w') = dom (rdr_cells w)"
      and out: "case read_outcome (os_event E (n_read w)) t a w of
         None \<Rightarrow> rc = 0 \<and> buf' = buf
       | Some f \<Rightarrow> frame_ok f \<and> rc = int (length f) \<and> take (length f) buf' = f
           \<and> f = current_line (item w')
           \<and> map_option last_read (rdr_cells w' a) = Some (read_id (item w'))"
    by blast
  from dom assms(3) have "rdr_cells w' a \<noteq> None" by blast
  moreover from out have "rc = 0 \<or> frame_ok (take (nat rc) buf') \<and> length (take (nat rc) buf') = nat rc"
    by (auto split: option.splits)
  ultimately show ?thesis using that rd wf' len by blast
qed

interpretation sp_lines: line_source "\<lambda>w. env_ok E \<and> wf_idle w \<and> rdr_cells w a \<noteq> None"
    "sp_read_line E a t" 1024
  for E a t
proof unfold_locales
  fix w :: "'a sp_world_scheme" and buf :: "byte list"
  assume A: "env_ok E \<and> wf_idle w \<and> rdr_cells w a \<noteq> None" and "length buf = 1024"
  then show "\<exists>rc buf' w'. sp_read_line E a t w buf = Inr (rc, buf', w')"
    by (elim conjE sp_read_shape [where E = E and w = w and a = a and buf = buf and t = t])
       (simp_all add: A sp_read_line_def)
next
  fix w w' :: "'a sp_world_scheme" and buf buf' :: "byte list" and rc
  assume A: "env_ok E \<and> wf_idle w \<and> rdr_cells w a \<noteq> None" and "length buf = 1024"
    and "sp_read_line E a t w buf = Inr (rc, buf', w')"
  then show "(env_ok E \<and> wf_idle w' \<and> rdr_cells w' a \<noteq> None) \<and> length buf' = 1024"
    by (elim conjE sp_read_shape [where E = E and w = w and a = a and buf = buf and t = t])
       (simp_all add: A sp_read_line_def)
next
  fix w w' :: "'a sp_world_scheme" and buf buf' :: "byte list" and rc
  assume A: "env_ok E \<and> wf_idle w \<and> rdr_cells w a \<noteq> None" and "length buf = 1024"
    and "sp_read_line E a t w buf = Inr (rc, buf', w')" and "0 < rc"
  then show "frame_ok (take (nat rc) buf') \<and> length (take (nat rc) buf') = nat rc"
    by (elim conjE sp_read_shape [where E = E and w = w and a = a and buf = buf and t = t])
       (auto simp: sp_read_line_def)
qed

text \<open>Whatever a reader is given is a C string: after any number of reads in a row into the same
  buffer, none of which fails, a read that returns bytes leaves one line in the buffer, with its
  NUL as the last of the bytes counted, so that the caller may hand the buffer to a parser.\<close>

theorem sp_reads_text:
  fixes w :: "'a sp_world_scheme"
  assumes "env_ok E" and "wf_idle w" and "rdr_cells w a \<noteq> None" and "length buf = 1024"
  shows "\<exists>buf' w'. line_source.rd_times (sp_read_line E a t) n w buf = Inr (buf', w')
    \<and> (\<exists>rc b w''. sp_read_line E a t w' buf' = Inr (rc, b, w'')
         \<and> (rc = 0 \<or> 0 < rc \<and> rc \<le> 1024 \<and> cstring b = Inr (butlast (take (nat rc) b))))"
proof -
  from assms sp_lines.rd_times_total obtain buf' w'
    where n: "line_source.rd_times (sp_read_line E a t) n w buf = Inr (buf', w')"
      and w': "env_ok E \<and> wf_idle w' \<and> rdr_cells w' a \<noteq> None" "length buf' = 1024" by metis
  then obtain rc b w'' where r: "sp_read E (Some a) (Some buf') 1024 t w' = Inr (rc, Some b, w'')"
    "length b = 1024" "rc = 0 \<or> frame_ok (take (nat rc) b) \<and> length (take (nat rc) b) = nat rc"
    using sp_read_shape [of E w' a buf' t] by metis
  then have l: "sp_read_line E a t w' buf' = Inr (rc, b, w'')" by (simp add: sp_read_line_def)
  have "rc = 0 \<or> 0 < rc \<and> rc \<le> 1024" using r(2,3) by (auto simp: frame_ok_def)
  with sp_lines.line_cstring [OF w' l] n l show ?thesis by blast
qed

theorem sp_reads_text_witness:
  "\<exists>buf' w'. line_source.rd_times (sp_read_line (env_of [ev_line demo_line]) 0 500) 3 sp_one_reader (replicate 1024 NUL)
       = Inr (buf', w')
    \<and> (\<exists>rc b w''. sp_read_line (env_of [ev_line demo_line]) 0 500 w' buf' = Inr (rc, b, w'')
         \<and> (rc = 0 \<or> 0 < rc \<and> rc \<le> 1024 \<and> cstring b = Inr (butlast (take (nat rc) b))))"
  by (rule sp_reads_text) (simp_all add: env_ok_env_of wf_one_reader)

end
