(* ===== verification/Sockpush_Link.thy ===== *)
theory Sockpush_Link
  imports Sockpush_Mailbox Sockpush_Read
begin

text \<open>
  The sequential model of a read against the interleaved threads: whatever the I/O thread does
  around a call of \<open>sp_read\<close>, there is a record \<open>rd_event\<close> with which the sequential \<open>sp_read\<close>
  gives the same result, leaves the same counters, and has seen the same lines. The lines that
  arrive after the call has made up its mind are left for the next one, so that calls can be
  put one after the other.
\<close>

section \<open>What has happened so far in a call\<close>

record plan =
  pl_before :: nat     \<comment> \<open>lines before the look at the buffer\<close>
  pl_lock :: bool      \<comment> \<open>the lock was free for the look\<close>
  pl_missed :: nat     \<comment> \<open>lines between the look and the wait\<close>
  pl_during :: bool    \<comment> \<open>a line was announced during the wait\<close>
  pl_late :: bool      \<comment> \<open>the wait has timed out\<close>
  pl_rest :: nat       \<comment> \<open>lines after the wait\<close>

definition total :: "plan \<Rightarrow> nat" where
  "total P = pl_before P + pl_missed P + of_bool (pl_during P) + pl_rest P"

text \<open>No line has been taken: \<open>i0\<close> and \<open>l0\<close> are the number of the line on the buffer and the one
  of the last line read when the call begins.\<close>

definition undecided :: "u32 \<Rightarrow> u32 \<Rightarrow> threads \<Rightarrow> plan \<Rightarrow> bool" where
  "undecided i0 l0 s P \<longleftrightarrow>
     abs_id s = i0 + of_nat (pl_before P + pl_missed P + of_bool (pl_during P))
     \<and> t_last_read s = l0 \<and> pl_rest P = 0 \<and> (pl_lock P \<longrightarrow> l0 = i0 + of_nat (pl_before P))"

definition decided :: "u32 \<Rightarrow> u32 \<Rightarrow> threads \<Rightarrow> plan \<Rightarrow> bool" where
  "decided i0 l0 s P \<longleftrightarrow>
     abs_id s = i0 + of_nat (total P)
     \<and> (if pl_lock P \<and> l0 \<noteq> i0 + of_nat (pl_before P)
        then pl_missed P = 0 \<and> \<not> pl_during P \<and> t_last_read s = i0 + of_nat (pl_before P)
        else t_last_read s = (if pl_during P \<and> \<not> pl_late P
               then i0 + of_nat (pl_before P + pl_missed P + 1) else l0))"

fun explains :: "th_cl \<Rightarrow> u32 \<Rightarrow> u32 \<Rightarrow> threads \<Rightarrow> plan \<Rightarrow> bool" where
  "explains C_try i0 l0 s P \<longleftrightarrow> undecided i0 l0 s P
     \<and> \<not> pl_lock P \<and> pl_missed P = 0 \<and> \<not> pl_during P \<and> \<not> pl_late P"
| "explains C_look i0 l0 s P \<longleftrightarrow> undecided i0 l0 s P
     \<and> \<not> pl_lock P \<and> pl_missed P = 0 \<and> \<not> pl_during P \<and> \<not> pl_late P"
| "explains C_lock_line i0 l0 s P \<longleftrightarrow> undecided i0 l0 s P \<and> \<not> pl_during P \<and> \<not> pl_late P"
| "explains C_enter i0 l0 s P \<longleftrightarrow> undecided i0 l0 s P \<and> \<not> pl_during P \<and> \<not> pl_late P"
| "explains (C_test late) i0 l0 s P \<longleftrightarrow> undecided i0 l0 s P
     \<and> pl_during P = (\<not> t_line_inactive s) \<and> pl_late P = late"
| "explains (C_relock late) i0 l0 s P \<longleftrightarrow> undecided i0 l0 s P
     \<and> pl_during P = (\<not> t_line_inactive s) \<and> pl_late P = late"
| "explains C_wait i0 l0 s P \<longleftrightarrow> undecided i0 l0 s P
     \<and> pl_during P = (\<not> t_line_inactive s) \<and> \<not> pl_late P"
| "explains C_load i0 l0 s P \<longleftrightarrow> undecided i0 l0 s P \<and> pl_during P \<and> \<not> pl_late P"
| "explains _ i0 l0 s P \<longleftrightarrow> decided i0 l0 s P"

lemma explains_cong:
  assumes "explains c i0 l0 s P" and "abs_id s' = abs_id s" and "t_last_read s' = t_last_read s"
    and "t_line_inactive s' = t_line_inactive s"
  shows "explains c i0 l0 s' P"
  using assms by (cases c) (simp_all add: undecided_def decided_def)

text \<open>The call has taken a line.\<close>

definition gets :: "th_cl \<Rightarrow> u32 \<Rightarrow> u32 \<Rightarrow> plan \<Rightarrow> bool" where
  "gets c i0 l0 P \<longleftrightarrow> c \<in> {C_leave, C_lock_done, C_signal, C_idle}
     \<and> (pl_lock P \<and> l0 \<noteq> i0 + of_nat (pl_before P) \<or> pl_during P \<and> \<not> pl_late P)"

section \<open>One move\<close>

text \<open>A line that lands: before the look, between look and wait, during the wait, or after it.\<close>

definition landed :: "th_cl \<Rightarrow> plan \<Rightarrow> plan" where
  "landed c P =
     (case c of
        C_try \<Rightarrow> P\<lparr>pl_before := Suc (pl_before P)\<rparr>
      | C_lock_line \<Rightarrow> P\<lparr>pl_missed := Suc (pl_missed P)\<rparr>
      | C_wait \<Rightarrow> P\<lparr>pl_during := True\<rparr>
      | C_relock late \<Rightarrow> P\<lparr>pl_during := True\<rparr>
      | _ \<Rightarrow> P\<lparr>pl_rest := Suc (pl_rest P)\<rparr>)"

lemma explains_land:
  assumes inv: "t_inv s" and r: "in_read (t_cl s)" "0 < t_readers s" and ex: "explains (t_cl s) i0 l0 s P"
    and go: "io_go s = Some s'" and l: "lands Io_go s"
  shows "explains (t_cl s') i0 l0 s' (landed (t_cl s) P) \<and> total (landed (t_cl s) P) = Suc (total P)
    \<and> gets (t_cl s') i0 l0 (landed (t_cl s) P) = gets (t_cl s) i0 l0 P"
proof -
  have io: "t_io s = I_test" using l r by (simp add: lands_def)
  have id: "abs_id s' = abs_id s + 1" and lr: "t_last_read s' = t_last_read s"
    using abs_id_move [of Io_go s s'] io_go_reader [OF go] go l by simp_all
  have w: "0 < t_waiting s \<longleftrightarrow> cl_waits (t_cl s)" using inv by (simp add: t_inv_def)
  have no: "\<not> cl_line (t_cl s)" "\<not> cl_user (t_cl s)" "\<not> cl_told (t_line_inactive s) (t_cl s)"
    using inv io by (auto simp: t_inv_def)
  have s': "t_line_inactive s' = (t_line_inactive s \<and> \<not> cl_waits (t_cl s))"
    "t_cl s' = (if t_cl s = C_wait then C_relock False else t_cl s)"
    using go io w by (auto simp: io_go_def split: if_split_asm)
  show ?thesis
    using no ex r id lr s'
    by (cases "t_cl s") (auto simp: undecided_def decided_def landed_def total_def gets_def add_ac)
qed

lemma explains_io:
  assumes inv: "t_inv s" and r: "in_read (t_cl s)" "0 < t_readers s" and ex: "explains (t_cl s) i0 l0 s P"
    and go: "io_go s = Some s'"
  shows "\<exists>P'. explains (t_cl s') i0 l0 s' P' \<and> total P' = total P + of_bool (lands Io_go s)
    \<and> gets (t_cl s') i0 l0 P' = gets (t_cl s) i0 l0 P"
proof (cases "lands Io_go s")
  case True
  with explains_land [OF assms True] show ?thesis by auto
next
  case False
  then have "t_io s \<noteq> I_test" by (simp add: lands_def)
  then have "t_line_inactive s' = t_line_inactive s" "t_cl s' = t_cl s"
    using go by (cases "t_io s"; auto simp: io_go_def split: if_split_asm)+
  moreover have "abs_id s' = abs_id s" "t_last_read s' = t_last_read s"
    using abs_id_move [of Io_go s s'] io_go_reader [OF go] go False by simp_all
  ultimately show ?thesis using explains_cong [OF ex, of s'] False by auto
qed

lemma explains_cl:
  assumes inv: "t_inv s" and r: "in_read (t_cl s)" and ex: "explains (t_cl s) i0 l0 s P"
    and go: "cl_go s = Some s'"
  shows "\<exists>P'. explains (t_cl s') i0 l0 s' P' \<and> total P' = total P
    \<and> gets (t_cl s') i0 l0 P' = (gets (t_cl s) i0 l0 P \<or> takes s)"
proof -
  have id: "abs_id s' = abs_id s" using abs_id_move [of Cl_go s s'] go by (simp add: lands_def)
  have cur: "takes s \<Longrightarrow> abs_id s = t_read_id s" using takes_current inv by blast
  show ?thesis
  proof (cases "t_cl s = C_look")
    case True
    then have a: "abs_id s = t_read_id s"
      using inv by (auto simp: abs_id_def pending_def t_inv_def split: th_io.splits)
    have "explains (t_cl s') i0 l0 s' (P\<lparr>pl_lock := True\<rparr>) \<and> total (P\<lparr>pl_lock := True\<rparr>) = total P
      \<and> gets (t_cl s') i0 l0 (P\<lparr>pl_lock := True\<rparr>) = (gets (t_cl s) i0 l0 P \<or> takes s)"
      using True ex go id a
      by (auto simp: cl_go_def undecided_def decided_def total_def gets_def takes_def split: if_split_asm)
    then show ?thesis by blast
  next
    case False
    have "explains (t_cl s') i0 l0 s' P \<and> gets (t_cl s') i0 l0 P = (gets (t_cl s) i0 l0 P \<or> takes s)"
      using False r ex go id cur
      by (cases "t_cl s")
         (auto simp: cl_go_def takes_def undecided_def decided_def total_def gets_def Let_def split: if_split_asm)
    then show ?thesis by blast
  qed
qed

lemma explains_move:
  assumes inv: "t_inv s" "call_inv s" and r: "in_read (t_cl s)" and ex: "explains (t_cl s) i0 l0 s P"
    and go: "t_move mv s = Some s'"
  shows "\<exists>P'. explains (t_cl s') i0 l0 s' P' \<and> total P' = total P + of_bool (lands mv s)
    \<and> gets (t_cl s') i0 l0 P' = (gets (t_cl s) i0 l0 P \<or> mv = Cl_go \<and> takes s)"
proof (cases mv)
  case Io_go
  have "0 < t_readers s" using inv(2) r by (simp add: call_inv_def)
  from explains_io [OF inv(1) r this ex] go Io_go show ?thesis by auto
next
  case Cl_go
  with explains_cl [OF inv(1) r ex] go show ?thesis by (auto simp: lands_def)
next
  case Io_wake
  with go have "abs_id s' = abs_id s" "t_last_read s' = t_last_read s"
    "t_line_inactive s' = t_line_inactive s" "t_cl s' = t_cl s"
    by (auto simp: abs_id_def pending_def split: if_split_asm)
  with explains_cong [OF ex, of s'] Io_wake show ?thesis by (auto simp: lands_def)
next
  case Cl_late
  with go ex have "explains (t_cl s') i0 l0 s' (P\<lparr>pl_late := True\<rparr>)"
    by (auto simp: undecided_def abs_id_def pending_def split: if_split_asm)
  with Cl_late go show ?thesis
    by (intro exI [of _ "P\<lparr>pl_late := True\<rparr>"]) (auto simp: total_def lands_def gets_def split: if_split_asm)
next
  case Cl_wake
  with go ex have "explains (t_cl s') i0 l0 s' P"
    by (auto simp: undecided_def abs_id_def pending_def split: if_split_asm)
  with Cl_wake go show ?thesis by (intro exI [of _ P]) (auto simp: lands_def gets_def split: if_split_asm)
qed (use go r in \<open>auto split: if_split_asm\<close>)

section \<open>A whole call\<close>

definition in_call :: "threads \<Rightarrow> threads \<Rightarrow> bool" where
  "in_call s s' \<longleftrightarrow> in_read (t_cl s)"

primrec landings :: "move list \<Rightarrow> threads \<Rightarrow> nat" where
  "landings [] s = 0"
| "landings (mv # mvs) s =
     of_bool (lands mv s) + (case t_move mv s of None \<Rightarrow> 0 | Some s' \<Rightarrow> landings mvs s')"

primrec took :: "move list \<Rightarrow> threads \<Rightarrow> bool" where
  "took [] s = False"
| "took (mv # mvs) s =
     (mv = Cl_go \<and> takes s \<or> (case t_move mv s of None \<Rightarrow> False | Some s' \<Rightarrow> took mvs s'))"

lemma explains_run:
  "run_while in_call mvs s = Some s' \<Longrightarrow> t_inv s \<Longrightarrow> call_inv s \<Longrightarrow> explains (t_cl s) i0 l0 s P \<Longrightarrow>
     \<exists>P'. explains (t_cl s') i0 l0 s' P' \<and> total P' = total P + landings mvs s
       \<and> gets (t_cl s') i0 l0 P' = (gets (t_cl s) i0 l0 P \<or> took mvs s)"
proof (induction mvs arbitrary: s P)
  case (Cons mv mvs)
  from Cons.prems(1) obtain x where x: "t_move mv s = Some x" "in_read (t_cl s)"
    "run_while in_call mvs x = Some s'"
    by (auto split: bind_splits if_split_asm) (simp add: in_call_def)
  from explains_move [OF Cons.prems(2,3) x(2) Cons.prems(4) x(1)] obtain P1
    where P1: "explains (t_cl x) i0 l0 x P1" "total P1 = total P + of_bool (lands mv s)"
      "gets (t_cl x) i0 l0 P1 = (gets (t_cl s) i0 l0 P \<or> mv = Cl_go \<and> takes s)" by blast
  have "t_inv x" "call_inv x" using t_inv_move call_inv_move x(1) Cons.prems(2,3) by blast+
  from Cons.IH [OF x(3) this P1(1)] P1(2,3) x(1) show ?case by auto
qed auto

lemma explains_call:
  assumes "t_inv s" "call_inv s" "t_cl s = C_try"
    and "run_while in_call mvs s = Some s'" "t_cl s' = C_idle"
  obtains P where "decided (abs_id s) (t_last_read s) s' P" and "total P = landings mvs s"
    and "gets C_idle (abs_id s) (t_last_read s) P = took mvs s"
proof -
  let ?P = "\<lparr>pl_before = 0, pl_lock = False, pl_missed = 0, pl_during = False, pl_late = False, pl_rest = 0\<rparr>"
  have "explains (t_cl s) (abs_id s) (t_last_read s) s ?P" using assms(3) by (simp add: undecided_def)
  from explains_run [OF assms(4,1,2) this] assms(3,5) that show ?thesis
    by (auto simp: total_def gets_def)
qed

section \<open>The call in the sequential model\<close>

definition plan_event :: "byte list list \<Rightarrow> byte list list \<Rightarrow> plan \<Rightarrow> rd_event" where
  "plan_event pre fs P = \<lparr>ev_now = Timespec 0 0, ev_before = pre @ take (pl_before P) fs,
     ev_lock = pl_lock P, ev_missed = take (pl_missed P) (drop (pl_before P) fs),
     ev_during = (if pl_during P then Some (fs ! (pl_before P + pl_missed P)) else None),
     ev_late = pl_late P\<rparr>"

lemma plan_event_lines:
  assumes "total P = length fs"
  shows "ev_lines (plan_event pre fs P)
    = pre @ take (pl_before P + pl_missed P + of_bool (pl_during P)) fs"
proof -
  let ?k = "pl_before P + pl_missed P"
  have "take ?k fs = take (pl_before P) fs @ take (pl_missed P) (drop (pl_before P) fs)"
    by (simp add: take_add)
  moreover have "take (Suc ?k) fs = take ?k fs @ [fs ! ?k]" if "pl_during P"
    using assms that by (intro take_Suc_conv_app_nth) (simp add: total_def)
  ultimately show ?thesis by (auto simp: ev_lines_def plan_event_def)
qed

lemma plan_event_ok:
  assumes "list_all frame_ok pre" and "list_all frame_ok fs" and "total P = length fs"
  shows "event_ok (plan_event pre fs P)"
proof -
  have "frame_ok (fs ! (pl_before P + pl_missed P))" if "pl_during P"
    using assms(2,3) that by (auto simp: list_all_length total_def)
  moreover have "list_all frame_ok (take n fs)" "list_all frame_ok (take m (drop n fs))" for m n
    using assms(2) by (auto simp: list_all_iff dest: in_set_takeD in_set_dropD)
  ultimately show ?thesis using assms(1) by (auto simp: event_ok_def plan_event_def ts_valid_def)
qed

text \<open>The states of the two models agree, when the sequential one has yet to publish \<open>pre\<close>.\<close>

definition coupled :: "threads \<Rightarrow> byte list list \<Rightarrow> 'a sp_world_scheme \<Rightarrow> nat \<Rightarrow> bool" where
  "coupled s pre w a \<longleftrightarrow> wf_idle w \<and> list_all frame_ok pre
     \<and> abs_id s = read_id (item w) + of_nat (length pre)
     \<and> (\<exists>r. rdr_cells w a = Some r \<and> last_read r = t_last_read s
          \<and> (read_size (item w) = 0 \<longrightarrow> last_read r = read_id (item w)))"

lemma deadline_zero: "ts_valid (sp_deadline t (Timespec 0 0))"
proof -
  have "int (t mod 1000) < 1000" "\<not> 1000 < t mod 1000" by simp_all
  then show ?thesis by (simp add: sp_deadline_def ts_valid_def Let_def)
qed

lemma fold_publish_size:
  "list_all frame_ok fs \<Longrightarrow> read_size (fold publish_item fs sp) \<noteq> 0 \<longleftrightarrow> fs \<noteq> [] \<or> read_size sp \<noteq> 0"
  by (induction fs rule: rev_induct) (auto simp: frame_ok_def)

lemma looked_iff:
  assumes c: "coupled s pre w a" and fs: "list_all frame_ok fs" "total P = length fs"
  shows "(pl_lock P \<and> unread (upd_item (fold publish_item (pre @ take (pl_before P) fs)) w) a
      \<and> read_size (item (upd_item (fold publish_item (pre @ take (pl_before P) fs)) w)) \<noteq> 0)
    \<longleftrightarrow> pl_lock P \<and> t_last_read s \<noteq> abs_id s + of_nat (pl_before P)"
proof -
  let ?l = "pre @ take (pl_before P) fs"
  have len: "length (take (pl_before P) fs) = pl_before P" using fs(2) by (simp add: total_def)
  have "list_all frame_ok ?l" using c fs(1) by (auto simp: coupled_def list_all_iff dest: in_set_takeD)
  note sz = fold_publish_size [OF this, of "item w"]
  from c obtain r where r: "rdr_cells w a = Some r" "last_read r = t_last_read s"
    "read_size (item w) = 0 \<longrightarrow> last_read r = read_id (item w)" by (auto simp: coupled_def)
  have id: "abs_id s + of_nat (pl_before P) = read_id (item w) + of_nat (length ?l)"
    using c len by (simp add: coupled_def)
  have "t_last_read s = abs_id s + of_nat (pl_before P)" if "?l = []" "read_size (item w) = 0"
    unfolding id that(1) using r(2,3) that(2) by simp
  moreover have "unread (upd_item (fold publish_item ?l) w) a = (t_last_read s \<noteq> abs_id s + of_nat (pl_before P))"
    unfolding id by (simp add: unread_def r(1,2) add.assoc)
  ultimately show ?thesis using sz by auto
qed

lemma read_linked:
  fixes w :: "'a sp_world_scheme"
  assumes c: "coupled s pre w a" and d: "decided (abs_id s) (t_last_read s) s' P"
    and fs: "list_all frame_ok fs" "total P = length fs" and buf: "length buf = 1024"
    and E: "env_ok E" "os_event E (n_read w) = plan_event pre fs P"
  shows "\<exists>rc buf' w'. sp_read E (Some a) (Some buf) 1024 t w = Inr (rc, Some buf', w')
    \<and> coupled s' (drop (pl_before P + pl_missed P + of_bool (pl_during P)) fs) w' a
    \<and> (0 < rc \<longleftrightarrow> gets C_idle (abs_id s) (t_last_read s) P)
    \<and> (0 < rc \<longrightarrow> take (nat rc) buf'
        = last (current_line (item w) # ev_lines (plan_event pre fs P)))"
proof -
  let ?ev = "plan_event pre fs P" and ?n = "pl_before P + pl_missed P + of_bool (pl_during P)"
  let ?L = "last (current_line (item w) # ev_lines ?ev)"
  let ?got = "gets C_idle (abs_id s) (t_last_read s) P"
  define looked where "looked \<longleftrightarrow> pl_lock P \<and> t_last_read s \<noteq> abs_id s + of_nat (pl_before P)"
  from c obtain r where r: "rdr_cells w a = Some r" "last_read r = t_last_read s" "wf_idle w"
    "abs_id s = read_id (item w) + of_nat (length pre)"
    "read_size (item w) = 0 \<longrightarrow> last_read r = read_id (item w)" by (auto simp: coupled_def)
  have len: "length (ev_before ?ev) = length pre + pl_before P" "length (ev_lines ?ev) = length pre + ?n"
    "length (drop ?n fs) = pl_rest P"
    using fs(2) by (simp_all add: total_def plan_event_lines) (simp add: plan_event_def)
  have valid: "ts_valid (sp_deadline t (ev_now ?ev))" by (simp add: plan_event_def deadline_zero)
  have no: "looked \<Longrightarrow> pl_missed P = 0 \<and> \<not> pl_during P" using d by (simp add: decided_def looked_def)
  have got: "?got \<longleftrightarrow> looked \<or> pl_during P \<and> \<not> pl_late P" by (simp add: gets_def looked_def)
  have lk: "ev_lock ?ev = pl_lock P" "ev_late ?ev = pl_late P"
    "looked \<Longrightarrow> ev_missed ?ev = []" "(ev_during ?ev = None) = (\<not> pl_during P)"
    using no by (simp_all add: plan_event_def)
  have look: "(ev_lock ?ev \<and> unread (upd_item (fold publish_item (ev_before ?ev)) w) a
      \<and> read_size (item (upd_item (fold publish_item (ev_before ?ev)) w)) \<noteq> 0) = looked"
    using looked_iff [OF c fs] by (simp add: plan_event_def looked_def)
  have pubs: "read_publishes ?ev t a w = ev_lines ?ev"
    using no lk valid look by (auto simp: read_publishes_def ev_lines_def wait_publishes_def Let_def)
  have out: "read_outcome ?ev t a w = (if ?got then Some ?L else None)"
    using no lk valid look got
    by (auto simp: read_outcome_def ev_lines_def current_line_fold Let_def split: option.splits)
  have L: "?got \<Longrightarrow> 0 < length ?L"
    using read_outcome_frame_ok [OF r(3) E(1) E(2) [symmetric], of t a ?L] out frame_okD by auto
  from sp_read_eq [OF r(3) E(1) r(1) buf, of t] obtain w' r' where
    rd: "sp_read E (Some a) (Some buf) 1024 t w = Inr (if ?got then int (length ?L) else 0,
           Some (if ?got then ?L @ drop (length ?L) buf else buf), w')"
    and w': "wf_idle w'" "rdr_cells w' a = Some r'"
      "last_read r' = (if ?got then read_id (item w') else if pl_lock P
         then read_id (item w) + of_nat (length pre + pl_before P) else t_last_read s)"
      "read_id (item w') = read_id (item w) + of_nat (length pre + ?n)"
      "current_line (item w') = ?L"
    unfolding E(2) pubs out lk len(1,2) r(2) by (auto split: if_split_asm)
  have "list_all frame_ok (drop ?n fs)" using fs(1) by (auto simp: list_all_iff dest: in_set_dropD)
  moreover have "abs_id s' = read_id (item w') + of_nat (length (drop ?n fs))"
    using d w'(4) r(4) len(3) by (simp add: decided_def total_def add_ac)
  moreover have "last_read r' = t_last_read s'"
    using d w'(3,4) r(4) no got by (auto simp: decided_def looked_def add_ac split: if_split_asm)
  moreover have "last_read r' = read_id (item w')" if "read_size (item w') = 0"
  proof -
    have wf: "wf_world w" "wf_world w'" using r(3) w'(1) by (simp_all add: wf_idle_def)
    have nil: "?L = []" using current_line_length [OF wf(2)] that w'(5) by simp
    have "list_all frame_ok (ev_lines ?ev)"
      using c fs plan_event_lines [OF fs(2)] by (auto simp: coupled_def list_all_iff dest: in_set_takeD)
    then have e: "ev_lines ?ev = []"
      using nil frame_okD [of "last (ev_lines ?ev)"] by (cases "ev_lines ?ev = []") (auto simp: list_all_iff)
    then have "read_size (item w) = 0" using nil current_line_length [OF wf(1)] by simp
    with r(2,5) have "t_last_read s = read_id (item w)" by simp
    moreover have "length pre = 0" "?n = 0" using e len(2) by simp_all
    ultimately show ?thesis using w'(3,4) by (auto simp del: of_nat_add)
  qed
  ultimately have "coupled s' (drop ?n fs) w' a" using w'(1,2) by (auto simp: coupled_def)
  then show ?thesis using rd L by (cases ?got) auto
qed

text \<open>C9: the sequential model of a read is sound for the interleaved threads: for every way in which
  the I/O thread runs around one call of the client, and for any contents of the lines published
  meanwhile, there is one event record with which the sequential \<open>sp_read\<close> returns a line exactly
  when the client took one, the bytes are those of the last line published before, and the
  counters of both models agree again, with the lines that came later still to be published.\<close>

theorem threads_read_linked:
  fixes w :: "'a sp_world_scheme"
  assumes "reachable s" and "t_cl s = C_try" and "coupled s pre w a"
    and "run_while in_call mvs s = Some s'" and "t_cl s' = C_idle"
    and "list_all frame_ok fs" and "length fs = landings mvs s" and "length buf = 1024"
  shows "\<exists>ev rest. pre @ fs = ev_lines ev @ rest \<and> event_ok ev
    \<and> (\<forall>E. env_ok E \<and> os_event E (n_read w) = ev \<longrightarrow>
        (\<exists>rc buf' w'. sp_read E (Some a) (Some buf) 1024 t w = Inr (rc, Some buf', w')
          \<and> coupled s' rest w' a \<and> (0 < rc \<longleftrightarrow> took mvs s)
          \<and> (0 < rc \<longrightarrow> take (nat rc) buf' = last (current_line (item w) # ev_lines ev))))"
proof -
  have inv: "t_inv s" "call_inv s"
    using t_inv_reachable sp_calls.inv_reached assms(1) by (auto simp: reachable_iff)
  from explains_call [OF inv assms(2,4,5)] obtain P
    where P: "decided (abs_id s) (t_last_read s) s' P" "total P = landings mvs s"
      "gets C_idle (abs_id s) (t_last_read s) P = took mvs s" .
  let ?n = "pl_before P + pl_missed P + of_bool (pl_during P)"
  have tot: "total P = length fs" using P(2) assms(7) by simp
  have "list_all frame_ok pre" using assms(3) by (simp add: coupled_def)
  then have "event_ok (plan_event pre fs P)" using plan_event_ok assms(6) tot by blast
  moreover have "pre @ fs = ev_lines (plan_event pre fs P) @ drop ?n fs"
    by (simp add: plan_event_lines [OF tot])
  ultimately show ?thesis
    using read_linked [OF assms(3) P(1) assms(6) tot assms(8), where t = t] P(3) by blast
qed

theorem threads_read_linked_witness:
  "\<exists>s s' ev rest rc buf' w'. t_run (take 4 losing_run) t_start = Some s
    \<and> run_while in_call (take 16 (drop 4 losing_run)) s = Some s' \<and> [demo_line] = ev_lines ev @ rest
    \<and> sp_read (env_of [ev]) (Some 0) (Some (replicate 1024 NUL)) 1024 500 sp_one_reader
        = Inr (rc, Some buf', w') \<and> coupled s' rest w' 0
    \<and> 0 < rc \<and> take (nat rc) buf' = last (current_line (item sp_one_reader) # ev_lines ev)"
proof -
  let ?mvs = "take 16 (drop 4 losing_run)"
  have "\<exists>s s'. t_run (take 4 losing_run) t_start = Some s \<and> run_while in_call ?mvs s = Some s'
      \<and> t_cl s = C_try \<and> t_cl s' = C_idle \<and> landings ?mvs s = 1 \<and> took ?mvs s
      \<and> abs_id s = 1 \<and> t_last_read s = 1"
    by (simp add: losing_run_def t_start_def io_go_def cl_go_def in_call_def lands_def takes_def
        abs_id_def pending_def)
  then obtain s s' where s: "t_run (take 4 losing_run) t_start = Some s" "run_while in_call ?mvs s = Some s'"
    "t_cl s = C_try" "t_cl s' = C_idle" "landings ?mvs s = 1" "took ?mvs s" "abs_id s = 1" "t_last_read s = 1"
    by blast
  have re: "reachable s" using reachable_run [OF s(1)] reachable.start by blast
  have c: "coupled s [] sp_one_reader 0"
    using s(7,8) wf_one_reader by (simp add: coupled_def) (simp add: sp_demo_defs)
  have "\<exists>ev rest. [] @ [demo_line] = ev_lines ev @ rest \<and> event_ok ev
    \<and> (\<forall>E. env_ok E \<and> os_event E (n_read sp_one_reader) = ev \<longrightarrow>
        (\<exists>rc buf' w'. sp_read E (Some 0) (Some (replicate 1024 NUL)) 1024 500 sp_one_reader = Inr (rc, Some buf', w')
          \<and> coupled s' rest w' 0 \<and> (0 < rc \<longleftrightarrow> took ?mvs s)
          \<and> (0 < rc \<longrightarrow> take (nat rc) buf' = last (current_line (item sp_one_reader) # ev_lines ev))))"
    by (rule threads_read_linked [OF re s(3) c s(2,4)]) (simp_all add: s(5))
  then obtain ev rest where ev: "[demo_line] = ev_lines ev @ rest" "event_ok ev"
    and rd: "\<forall>E. env_ok E \<and> os_event E (n_read sp_one_reader) = ev \<longrightarrow> (\<exists>rc buf' w'.
        sp_read E (Some 0) (Some (replicate 1024 NUL)) 1024 500 sp_one_reader = Inr (rc, Some buf', w')
          \<and> coupled s' rest w' 0 \<and> (0 < rc \<longleftrightarrow> took ?mvs s)
          \<and> (0 < rc \<longrightarrow> take (nat rc) buf' = last (current_line (item sp_one_reader) # ev_lines ev)))"
    unfolding append_Nil by blast
  have "env_ok (env_of [ev])" "os_event (env_of [ev]) (n_read sp_one_reader) = ev"
    using ev(2) by (auto intro: env_ok_env_of) (simp add: sp_demo_defs)
  with rd s(6) obtain rc buf' w' where
    "sp_read (env_of [ev]) (Some 0) (Some (replicate 1024 NUL)) 1024 500 sp_one_reader = Inr (rc, Some buf', w')"
    "coupled s' rest w' 0" "0 < rc"
    "take (nat rc) buf' = last (current_line (item sp_one_reader) # ev_lines ev)" by blast
  with s(1,2) ev(1) show ?thesis by blast
qed

end
