(* ===== verification/Sockpush_Close.thy ===== *)
theory Sockpush_Close
  imports Sockpush_Threads
begin

text \<open>
  Closing a handle while the I/O thread runs: \<open>sp_close\<close> requests the cancellation of the thread,
  waits for its end, and then unlocks and destroys the mutexes. The thread defers the request to
  the next cancellation point, which in the loop are the read of a byte and the wait for the
  reader (locking a mutex is none); a wait that is cancelled ends with its mutex locked again, and
  there is no clean-up handler. The client is in \<open>sp_close\<close> and holds no mutex, so that only the
  I/O thread moves.
\<close>

section \<open>The thread under a request for cancellation\<close>

datatype io_life = Running threads | Ended threads

definition io_cancelled :: "threads \<Rightarrow> io_life option" where
  "io_cancelled s =
     (case t_io s of
        I_read \<Rightarrow> Some (Ended s)
      | I_wait \<Rightarrow> if m_done s = None then Some (Ended (s\<lparr>m_done := Some T_io\<rparr>)) else None
      | _ \<Rightarrow> map_option Running (io_go s))"

text \<open>The wait for the end of the thread: its moves, at most \<open>n\<close> of them; \<open>None\<close> when it is blocked
  or has not ended.\<close>

primrec sp_join :: "nat \<Rightarrow> threads \<Rightarrow> threads option" where
  "sp_join 0 s = None"
| "sp_join (Suc n) s =
     (case io_cancelled s of
        None \<Rightarrow> None
      | Some (Ended s') \<Rightarrow> Some s'
      | Some (Running s') \<Rightarrow> sp_join n s')"

section \<open>The mutexes after the thread\<close>

datatype unlock = Own_mutex | Not_locked | Locked_by_other

fun unlock_of :: "tid option \<Rightarrow> unlock" where
  "unlock_of None = Not_locked" | "unlock_of (Some T_cl) = Own_mutex" | "unlock_of (Some T_io) = Locked_by_other"

text \<open>The three unlock operations of \<open>sp_close\<close>, in its order.\<close>

definition sp_close_unlocks :: "threads \<Rightarrow> unlock list" where
  "sp_close_unlocks s = map unlock_of [m_done s, m_line s, m_user s]"

section \<open>Closing always ends\<close>

text \<open>The moves left until the next cancellation point.\<close>

fun io_left :: "th_io \<Rightarrow> nat" where
  "io_left I_read = 1" | "io_left I_wait = 1" | "io_left I_unlock_user = 2" | "io_left I_done_test = 3"
| "io_left I_relock = 4" | "io_left I_lock_done = 4" | "io_left I_test = 5" | "io_left I_lock_line = 6"
| "io_left I_publish = 7" | "io_left I_lock_user = 8"

lemma io_left_bounds: "1 \<le> io_left i \<and> io_left i \<le> 8"
  by (cases i) auto

lemma io_cancelled_moves:
  assumes "t_inv s" and "t_cl s = C_idle" and "t_io s \<noteq> I_read" and "t_io s \<noteq> I_wait"
  obtains s' where "io_cancelled s = Some (Running s')" and "io_go s = Some s'"
    and "t_cl s' = C_idle" and "io_left (t_io s') < io_left (t_io s)"
  using assms
  by (cases "t_done_inactive s"; cases "0 < t_readers s"; cases "t_io s")
     (auto simp: io_cancelled_def io_go_def t_inv_def)

lemma sp_join_ends:
  assumes "t_inv s" and "t_cl s = C_idle" and "io_left (t_io s) \<le> n"
  shows "\<exists>s'. sp_join n s = Some s' \<and> t_cl s' = C_idle \<and>
    (t_io s' = I_read \<and> (m_user s', m_line s', m_done s') = (None, None, None)
     \<or> t_io s' = I_wait \<and> (m_user s', m_line s', m_done s') = (Some T_io, None, Some T_io))"
  using assms
proof (induction n arbitrary: s)
  case 0
  then show ?case using io_left_bounds [of "t_io s"] by simp
next
  case (Suc n)
  show ?case
  proof (cases "t_io s = I_read \<or> t_io s = I_wait")
    case True
    with Suc.prems(1,2) show ?thesis by (auto simp: io_cancelled_def t_inv_def)
  next
    case False
    with io_cancelled_moves [OF Suc.prems(1,2)] obtain s1
      where s1: "io_cancelled s = Some (Running s1)" "io_go s = Some s1" "t_cl s1 = C_idle"
        "io_left (t_io s1) < io_left (t_io s)" by blast
    from Suc.IH [OF t_inv_io [OF Suc.prems(1) s1(2)] s1(3)] Suc.prems(3) s1(1,4) show ?thesis by simp
  qed
qed

text \<open>C21: closing a handle always ends, also after an announcement was lost: wherever the I/O thread
  is when the client calls \<open>sp_close\<close>, it reaches a cancellation point within eight moves. But the
  mutexes that are then unlocked are never the caller's: they are not locked, or, when the thread
  was cancelled in its wait for the reader, two of them are still locked by the thread that has
  ended; POSIX leaves both undefined.\<close>

theorem sp_close_ends:
  assumes "reachable s" and "t_cl s = C_idle"
  shows "\<exists>s'. sp_join 8 s = Some s' \<and> sp_close_unlocks s' =
    (if t_io s' = I_wait then [Locked_by_other, Not_locked, Locked_by_other]
     else [Not_locked, Not_locked, Not_locked])"
  using sp_join_ends [OF t_inv_reachable [OF assms(1)] assms(2), of 8] io_left_bounds [of "t_io s"]
  by (auto simp: sp_close_unlocks_def)

theorem sp_close_ends_witness:
  "\<exists>s s'. t_run (take 22 losing_run) t_start = Some s \<and> t_io s = I_wait \<and> sp_join 8 s = Some s'
    \<and> sp_close_unlocks s' = [Locked_by_other, Not_locked, Locked_by_other]"
proof -
  have "\<exists>s. t_run (take 22 losing_run) t_start = Some s \<and> t_io s = I_wait \<and> t_cl s = C_idle"
    by (simp add: losing_run_def t_start_def io_go_def cl_go_def)
  then obtain s where s: "t_run (take 22 losing_run) t_start = Some s" "t_io s = I_wait" "t_cl s = C_idle"
    by blast
  have "reachable s" using reachable_run [OF s(1)] reachable.start by blast
  from sp_close_ends [OF this s(3)] obtain s' where
    s': "sp_join 8 s = Some s'" "sp_close_unlocks s' =
      (if t_io s' = I_wait then [Locked_by_other, Not_locked, Locked_by_other]
       else [Not_locked, Not_locked, Not_locked])" by blast
  moreover have "t_io s' = I_wait" using s'(1) s(2)
    by (auto simp: numeral_nat io_cancelled_def split: if_split_asm)
  ultimately show ?thesis using s by auto
qed

end
