(* ===== verification/Sockpush_Calls.thy ===== *)
theory Sockpush_Calls
  imports Sockpush_Read
begin

text \<open>
  Properties of the remaining calls of \<open>sockpush.c\<close>: the balance of readers, the framing of
  commands on the socket, and the resources of \<open>sp_open\<close> and \<open>sp_close\<close>.
\<close>

text \<open>
  A call may not return: it waits for the user mutex for ever when the I/O thread keeps it
  (\<open>threads_deadlock\<close>), and a \<open>write\<close> to a connection the peer has closed kills the process.
  \<open>calls_return\<close> says that neither happens: each mutex asked for becomes free, and each \<open>write\<close>
  returns, with whatever result.
\<close>

definition calls_return :: "sp_env \<Rightarrow> bool" where
  "calls_return E \<longleftrightarrow> (\<forall>i. os_user E i) \<and> (\<forall>i d. os_write E i d \<noteq> None)"

lemma calls_return_user [simp]: "calls_return E \<Longrightarrow> os_user E i"
  by (simp add: calls_return_def)

lemma calls_return_lock [simp]: "calls_return E \<Longrightarrow> user_lock E w = Inr ()"
  by simp

lemma calls_return_write:
  assumes "calls_return E"
  obtains r where "os_write E i d = Some r"
  using assms by (fastforce simp: calls_return_def)

section \<open>Properties of readers, of writing, and of the handle\<close>

lemma usize_le_one: "(x :: usize) \<le> 1 \<longleftrightarrow> x = 0 \<or> x = 1"
proof -
  have "x \<le> 1 \<longleftrightarrow> unat x = unat (0 :: usize) \<or> unat x = unat (1 :: usize)"
    by (auto simp: word_le_nat_alt)
  then show ?thesis by (simp only: word_unat_eq_iff)
qed

lemma wf_world_readers:
  assumes "wf_world w"
  shows "readers (item w) = 0 \<and> rdr_cells w = Map.empty
       \<or> readers (item w) = 1 \<and> card (dom (rdr_cells w)) = 1"
proof -
  have "readers (item w) = 0 \<or> readers (item w) = 1"
    using assms by (auto simp: wf_world_def wf_item_def SP_MAX_READERS_def usize_le_one)
  then show ?thesis
    using assms by (auto simp: wf_world_def)
qed

definition with_reader :: "'a sp_world_scheme \<Rightarrow> 'a sp_world_scheme" where
  "with_reader w = (upd_item (\<lambda>sp. sp\<lparr>reader_slots := [Some (rdr_next w)], readers := 1\<rparr>) w)
     \<lparr>n_alloc := Suc (n_alloc w), rdr_next := Suc (rdr_next w),
      rdr_cells := [rdr_next w \<mapsto> \<lparr>parent = SP_ITEM, last_read = read_id (item w)\<rparr>]\<rparr>"

lemma sp_reader_create_eq:
  assumes wf: "wf_idle w" and none: "readers (item w) = 0" and lock: "os_user E (n_read w)"
  shows "sp_reader_create E SP_ITEM w =
     Inr (if os_alloc E (n_alloc w) then (Some (rdr_next w), with_reader w)
          else (None, w\<lparr>n_alloc := Suc (n_alloc w)\<rparr>))"
proof -
  have w: "wf_world w" using wf by (simp add: wf_idle_def)
  have cells: "rdr_cells w = Map.empty" using wf_world_readers [OF w] none by auto
  have mx: "max_readers (item w) = 1" and "length (reader_slots (item w)) = 1"
    using w by (auto simp: wf_world_def wf_item_def SP_MAX_READERS_def)
  then obtain s where "reader_slots (item w) = [s]" by (auto simp: length_Suc_conv)
  then show ?thesis
    using none mx cells lock by (simp add: sp_reader_create_def with_reader_def Let_def)
qed

lemma wf_with_reader: "wf_idle w \<Longrightarrow> wf_idle (with_reader w)"
  by (simp add: with_reader_def wf_idle_def wf_world_def wf_item_def current_line_def SP_MAX_READERS_def)

lemma sp_reader_destroy_ok:
  assumes wf: "wf_idle w" and one: "readers (item w) = 1" and live: "rdr_cells w a \<noteq> None"
    and lock: "os_user E (n_read w)"
  shows "\<exists>w'. sp_reader_destroy E (Some a) w = Inr w' \<and> wf_idle w' \<and> readers (item w') = 0
    \<and> rdr_cells w' = Map.empty \<and> sp_world.more w' = sp_world.more w
    \<and> sock_out w' = sock_out w \<and> n_read w' = n_read w"
proof -
  have w: "wf_world w" and idle: "waiting_readers (item w) = 0" using wf by (auto simp: wf_idle_def)
  have "card (dom (rdr_cells w)) = 1" using wf_world_readers [OF w] one by auto
  then obtain x where "dom (rdr_cells w) = {x}" by (auto simp: card_1_singleton_iff)
  moreover have "a \<in> dom (rdr_cells w)" using live by blast
  ultimately have "dom (rdr_cells w) = {a}" by simp
  then have e: "(rdr_cells w)(a := None) = Map.empty" by (auto simp: dom_def fun_eq_iff)
  from live obtain r where r: "rdr_cells w a = Some r" by auto
  let ?w' = "(upd_item (\<lambda>sp. sp\<lparr>readers := 0\<rparr>) w)\<lparr>rdr_cells := Map.empty\<rparr>"
  have "sp_reader_destroy E (Some a) w = Inr ?w'"
    using one e r lock by (simp add: sp_reader_destroy_def rdr_cell_def)
  moreover have "wf_idle ?w'"
    using w idle by (simp add: wf_idle_def wf_world_def wf_item_def current_line_def SP_MAX_READERS_def)
  ultimately show ?thesis by (intro exI [of _ ?w']) simp
qed

text \<open>Readers are created and released in balance: on a handle without readers,
  \<open>sp_reader_create\<close> gives a live reader (when the allocation succeeds) that starts after the
  current line, a second one is refused while it lives, and \<open>sp_reader_destroy\<close> brings the
  reader count and the heap back, so that the next command can create its reader.\<close>

theorem sp_reader_create_destroy:
  fixes w :: "'a sp_world_scheme"
  assumes wf: "wf_idle w" and none: "readers (item w) = 0" and ok: "os_alloc E (n_alloc w)"
    and lock: "os_user E (n_read w)"
  shows "\<exists>a w1. sp_reader_create E SP_ITEM w = Inr (Some a, w1) \<and> wf_idle w1
      \<and> map_option last_read (rdr_cells w1 a) = Some (read_id (item w))
      \<and> readers (item w1) = 1
      \<and> sp_reader_create E SP_ITEM w1 = Inr (None, w1)
      \<and> (\<exists>w2. sp_reader_destroy E (Some a) w1 = Inr w2 \<and> wf_idle w2
           \<and> readers (item w2) = 0 \<and> rdr_cells w2 = rdr_cells w
           \<and> sp_reader_destroy E (Some a) w2 = Inl Use_after_free)"
proof -
  let ?a = "rdr_next w"
  have c: "sp_reader_create E SP_ITEM w = Inr (Some ?a, with_reader w)"
    using sp_reader_create_eq [OF wf none lock] ok by simp
  have wf1: "wf_idle (with_reader w)" using wf by (rule wf_with_reader)
  have mx: "max_readers (item w) = 1"
    using wf by (auto simp: wf_idle_def wf_world_def wf_item_def SP_MAX_READERS_def)
  have r1: "readers (item (with_reader w)) = 1"
    and cell: "map_option last_read (rdr_cells (with_reader w) ?a) = Some (read_id (item w))"
    and full: "sp_reader_create E SP_ITEM (with_reader w) = Inr (None, with_reader w)"
    using mx by (simp_all add: with_reader_def sp_reader_create_def)
  from cell have live: "rdr_cells (with_reader w) ?a \<noteq> None" by auto
  have "os_user E (n_read (with_reader w))" using lock by (simp add: with_reader_def)
  from sp_reader_destroy_ok [OF wf1 r1 live this] obtain w2
    where d: "sp_reader_destroy E (Some ?a) (with_reader w) = Inr w2" "wf_idle w2"
      "readers (item w2) = 0" "rdr_cells w2 = Map.empty" by blast
  have "rdr_cells w = Map.empty"
    using wf none wf_world_readers [of w] by (auto simp: wf_idle_def)
  moreover have "sp_reader_destroy E (Some ?a) w2 = Inl Use_after_free"
    using d(4) by (simp add: sp_reader_destroy_def rdr_cell_def)
  ultimately show ?thesis using c wf1 cell r1 full d by auto
qed

theorem sp_reader_create_destroy_witness:
  "\<exists>a w1 w2. sp_reader_create (env_of []) SP_ITEM sp_start = Inr (Some a, w1)
     \<and> sp_reader_destroy (env_of []) (Some a) w1 = Inr w2 \<and> rdr_cells w2 = Map.empty"
proof -
  have "readers (item sp_start) = 0" "os_alloc (env_of []) (n_alloc sp_start)"
    "os_user (env_of []) (n_read sp_start)"
    "rdr_cells sp_start = Map.empty" by (simp_all add: sp_demo_defs)
  with sp_reader_create_destroy [OF wf_start, of "env_of []"] show ?thesis by fastforce
qed

definition writes_all :: "sp_env \<Rightarrow> bool" where
  "writes_all E \<longleftrightarrow> (\<forall>i d. os_write E i d = Some (int (length d)))"

text \<open>C31: when the socket takes every byte and the mutex of the handle can be had, \<open>sp_sendcmd\<close>
  appends the command to the stream and exactly one newline after it unless the command ends in
  one; it returns the size of the command in that case, and 1, the size of the terminator alone,
  otherwise. When the mutex is never released, the call does not return.\<close>

theorem sp_sendcmd_framing:
  fixes w :: "'a sp_world_scheme"
  assumes "writes_all E" and "subs (item w) = 0" and "0 < n" and "n \<le> length buf"
  shows "if os_user E (n_read w) then
      (\<exists>w'. sp_sendcmd E SP_ITEM (Some buf) n w = Inr (if buf ! (n - 1) = LF then int n else 1, w')
        \<and> sock_out w' = sock_out w @ take n buf @ (if buf ! (n - 1) = LF then [] else [LF])
        \<and> item w' = item w \<and> rdr_cells w' = rdr_cells w)
    else sp_sendcmd E SP_ITEM (Some buf) n w = Inl Blocked"
  using assms
  by (auto simp: sp_sendcmd_def sub_write_def sp_oswrite_def writes_all_def user_lock_def)

theorem sp_sendcmd_framing_witness:
  "\<exists>w'. sp_sendcmd (env_of []) SP_ITEM (Some (''ls'' @ [NUL])) 2 sp_start = Inr (1, w')
     \<and> sock_out w' = ''ls'' @ [LF]"
proof -
  have "writes_all (env_of [])" "subs (item sp_start) = 0" "sock_out sp_start = []"
    "os_user (env_of []) (n_read sp_start)"
    by (simp_all add: writes_all_def sp_demo_defs)
  with sp_sendcmd_framing [of "env_of []" sp_start 2 "''ls'' @ [NUL]"] show ?thesis by auto
qed

text \<open>A short write is not completed and not reported: the newline follows the part of the
  command that was taken, and the result is the one of a complete write.\<close>

theorem sp_sendcmd_short_write:
  fixes w :: "'a sp_world_scheme"
  assumes "subs (item w) = 0" and "0 < n" and "n \<le> length buf" and "buf ! (n - 1) \<noteq> LF"
    and "os_write E (n_write w) (take n buf) = Some (int k)" and "k < n"
    and "os_write E (Suc (n_write w)) [LF] = Some 1" and "os_user E (n_read w)"
  shows "\<exists>w'. sp_sendcmd E SP_ITEM (Some buf) n w = Inr (1, w')
    \<and> sock_out w' = sock_out w @ take k buf @ [LF]"
  using assms
  by (auto simp: sp_sendcmd_def sub_write_def sp_oswrite_def min_def)

theorem sp_sendcmd_short_write_witness:
  "\<exists>w'. sp_sendcmd ((env_of [])\<lparr>os_write := (\<lambda>_ _. Some 1)\<rparr>) SP_ITEM (Some ''reboot'') 6 sp_start = Inr (1, w')
     \<and> sock_out w' = [CHR ''r'', LF]"
proof -
  have "subs (item sp_start) = 0" "sock_out sp_start = []"
    "os_user ((env_of [])\<lparr>os_write := (\<lambda>_ _. Some 1)\<rparr>) (n_read sp_start)"
    by (simp_all add: sp_demo_defs)
  with sp_sendcmd_short_write [of sp_start 6 "''reboot''" "(env_of [])\<lparr>os_write := (\<lambda>_ _. Some 1)\<rparr>" 1]
  show ?thesis by auto
qed

lemma all_resources:
  "UNIV - {R_fd} = {R_mem, R_user_mutex, R_readline_mutex, R_readline_cond, R_readdone_mutex,
     R_readdone_cond, R_thread}"
  "(UNIV :: resource set) = {R_mem, R_fd, R_user_mutex, R_readline_mutex, R_readline_cond,
     R_readdone_mutex, R_readdone_cond, R_thread}"
  using resource.exhaust by auto

lemmas sp_open_defs = sp_open_def sp_open_ERR_def sp_open_labels_def release_def Let_def

lemma sp_open_live:
  "\<exists>rc sp live. sp_open e handle_null path flags {} = Inr (rc, sp, live)
     \<and> (rc = 0 \<longleftrightarrow> sp \<noteq> None) \<and> rc \<le> 0
     \<and> live = (if rc \<noteq> 0 then {} else if 0 \<le> socket_fd e then UNIV else UNIV - {R_fd})"
proof (cases "calloc_addr e")
  case None
  then show ?thesis by (simp add: sp_open_def)
next
  case (Some p)
  then show ?thesis
    by (auto simp: sp_open_defs all_resources)
qed

text \<open>C24: \<open>sp_open\<close> never leaks and never destroys what does not exist: whatever the system
  calls answer it returns, a handle goes with return code 0 and with all the resources of a
  handle (the descriptor too, if \<open>socket\<close> gave one), and every error leaves no resource behind.\<close>

theorem sp_open_ledger:
  "\<exists>rc sp live. sp_open e handle_null path flags {} = Inr (rc, sp, live)
     \<and> (rc = 0 \<longleftrightarrow> sp \<noteq> None) \<and> rc \<le> 0
     \<and> live = (if rc \<noteq> 0 then {} else if 0 \<le> socket_fd e then UNIV else UNIV - {R_fd})"
  by (rule sp_open_live)

text \<open>What \<open>sp_open\<close> has acquired, \<open>sp_close\<close> releases: each resource once, in a legal
  order, and none is left, where the platform lets it unlock mutexes it does not hold; where it
  does not, the closing itself is undefined.\<close>

theorem sp_open_close:
  assumes "sp_open e handle_null path flags {} = Inr (0, Some sp, live)"
  shows "sp_close 0 unlock_ok SP_ITEM live =
    (if unlock_ok then Inr (0, {}) else Inl Foreign_unlock)"
proof -
  have "live = (if 0 \<le> socket_fd e then UNIV else UNIV - {R_fd})"
    using assms sp_open_live [of e handle_null path flags] by auto
  then show ?thesis
    by (cases "0 \<le> socket_fd e") (auto simp: all_resources sp_close_def release_def foreign_unlock_def)
qed

definition open_env_demo :: "int \<Rightarrow> open_env" where
  "open_env_demo fd = \<lparr>calloc_addr = Some 4096, stat_rc = 0, is_sock = True, socket_fd = fd,
     user_mutex_rc = 0, readline_mutex_rc = 0, readline_cond_rc = 0, readdone_mutex_rc = 0,
     readdone_cond_rc = 0, thread_rc = 0\<rparr>"

theorem sp_open_close_witness:
  "\<exists>sp live. sp_open (open_env_demo 3) False (Some ''/tmp/otter'') 0 {} = Inr (0, Some sp, live)
     \<and> sp_close 0 True SP_ITEM live = Inr (0, {})"
proof -
  obtain sp live where o: "sp_open (open_env_demo 3) False (Some ''/tmp/otter'') 0 {}
      = Inr (0, Some sp, live)"
    by (simp add: sp_open_def open_env_demo_def Let_def)
  show ?thesis using o sp_open_close [OF o, of True] by simp
qed

text \<open>A failing \<open>socket\<close> call goes unnoticed, because the test looks at the handle and not
  at the descriptor: error -4 is never returned, and the open succeeds with a handle whose
  descriptor is the error value.\<close>

theorem sp_open_ignores_socket_failure:
  assumes "calloc_addr e = Some p" and "stat_rc e = 0" and "is_sock e" and "socket_fd e < 0"
    and "user_mutex_rc e = 0" and "readline_mutex_rc e = 0" and "readline_cond_rc e = 0"
    and "readdone_mutex_rc e = 0" and "readdone_cond_rc e = 0" and "thread_rc e = 0"
  shows "\<exists>sp live. sp_open e False (Some path) flags {} = Inr (0, Some sp, live)
     \<and> fd_sock sp < 0"
  using assms by (simp add: sp_open_def Let_def)

theorem sp_open_ignores_socket_failure_witness:
  "\<exists>sp live. sp_open (open_env_demo (-1)) False (Some ''/tmp/otter'') 0 {} = Inr (0, Some sp, live)
     \<and> fd_sock sp < 0"
  using sp_open_ignores_socket_failure [of "open_env_demo (-1)" 4096 "''/tmp/otter''" 0]
  by (simp add: open_env_demo_def)

text \<open>The address a handle connects to is the path it was given exactly when the path is
  shorter than 104 bytes; a longer path, although it was checked to be a socket, is cut.\<close>

theorem sp_open_path:
  assumes "sp_open e False (Some path) flags {} = Inr (0, Some sp, live)"
  shows "sun_path sp = take 103 path \<and> (sun_path sp = path \<longleftrightarrow> length path < 104)"
proof -
  have "sun_path sp = take 103 path"
    using assms by (auto simp: sp_open_def sp_open_ERR_def Let_def UNIX_PATH_MAX_def
        split: if_splits option.splits)
  then show ?thesis by auto
qed

theorem sp_open_path_witness:
  "\<exists>sp live. sp_open (open_env_demo 3) False (Some ''/tmp/otter'') 0 {} = Inr (0, Some sp, live)
     \<and> sun_path sp = ''/tmp/otter''"
proof -
  obtain sp live where o: "sp_open (open_env_demo 3) False (Some ''/tmp/otter'') 0 {}
      = Inr (0, Some sp, live)"
    by (simp add: sp_open_def open_env_demo_def Let_def)
  show ?thesis using o sp_open_path [OF o] by auto
qed

end
