(* ===== verification/Sockpush_Session.thy ===== *)
theory Sockpush_Session
  imports Sockpush_Calls
begin

text \<open>
  Any sequence of calls of the client interface, with any arguments: a client that passes readers
  that live and buffers of the stated size runs into no undefined behaviour, and the handle and the
  readers stay well formed; a released reader is a use after free. And the dispatch to subscribers,
  for any list of them, although the stub \<open>sp_subscribe\<close> never adds one.
\<close>

section \<open>Reads into a buffer of any size\<close>

lemma sub_loadread_any:
  assumes "wf_world w" and "rdr_cells w a = Some r" and "n \<le> length buf"
  shows "\<exists>rc b. sub_loadread a buf n w =
      Inr (rc, b, w\<lparr>rdr_cells := (rdr_cells w)(a \<mapsto> r\<lparr>last_read := read_id (item w)\<rparr>)\<rparr>)
    \<and> length b = length buf"
proof -
  obtain m where m: "read_buf (item w) = Some m" "length m = 1024" "read_size (item w) \<le> 1024"
    using assms(1) by (auto simp: wf_world_def wf_item_def)
  with assms(2,3) show ?thesis by (auto simp: sub_loadread_def rdr_cell_def memcpy_def Let_def)
qed

lemma wf_idle_upd:
  "wf_idle w \<Longrightarrow> wf_item sp \<Longrightarrow> readers sp = readers (item w) \<Longrightarrow> waiting_readers sp = 0 \<Longrightarrow>
     wf_idle (w\<lparr>item := sp\<rparr>)"
  by (simp add: wf_idle_def wf_world_item)

lemma sp_read_wait_any:
  fixes w :: "'a sp_world_scheme"
  assumes wf: "wf_world w" "waiting_readers (item w) = 0" and cell: "rdr_cells w a = Some r"
    and buf: "n \<le> length buf" and ev: "pred_option frame_ok (ev_during ev)"
  shows "\<exists>rc b w' :: 'a sp_world_scheme. sp_read_wait ts ev a buf n w = Inr (rc, b, w')
    \<and> wf_idle w' \<and> length b = length buf \<and> dom (rdr_cells w') = dom (rdr_cells w)"
proof -
  let ?enter = "\<lambda>sp. sp\<lparr>waiting_readers := waiting_readers sp + 1, readline_inactive := True\<rparr>"
  let ?w1 = "upd_item ?enter w"
  have wf1: "wf_world ?w1" using wf(1) by (simp add: wf_world_item)
  define p where "p = (case ev_during ev of None \<Rightarrow> Inr ?w1
      | Some f \<Rightarrow> if ts_valid ts then sp_publish f (length f) ?w1 else Inr ?w1)"
  have "\<exists>sp. p = Inr (w\<lparr>item := sp\<rparr>) \<and> wf_world (w\<lparr>item := sp\<rparr>) \<and> waiting_readers sp = 1"
  proof (cases "ev_during ev")
    case (Some f)
    then have f: "frame_ok f" using ev by simp
    show ?thesis
    proof (cases "ts_valid ts")
      case True
      with Some sp_publish_eq [OF wf1 f] wf_world_publish [OF wf1 f] wf(2) show ?thesis
        by (intro exI [of _ "publish_item f (?enter (item w))"]) (simp add: p_def)
    qed (use Some wf1 wf(2) in \<open>auto simp: p_def\<close>)
  qed (use wf1 wf(2) in \<open>auto simp: p_def\<close>)
  then obtain sp where sp: "p = Inr (w\<lparr>item := sp\<rparr>)" "wf_world (w\<lparr>item := sp\<rparr>)"
    "waiting_readers sp = 1" by blast
  let ?w2 = "w\<lparr>item := sp\<rparr>"
  have cell2: "rdr_cells ?w2 a = Some r" using cell by simp
  from sub_loadread_any [OF sp(2) cell2 buf] obtain rc b
    where ld: "sub_loadread a buf n ?w2 =
        Inr (rc, b, ?w2\<lparr>rdr_cells := (rdr_cells w)(a \<mapsto> r\<lparr>last_read := read_id sp\<rparr>)\<rparr>)"
      "length b = length buf" by auto
  have wf3: "wf_world (?w2\<lparr>rdr_cells := (rdr_cells w)(a \<mapsto> r')\<rparr>)" for r'
    using wf_world_cell [OF sp(2) cell2, of r'] by simp
  have "wf_item sp" using sp(2) by (simp add: wf_world_def)
  then have wf4: "wf_idle (w\<lparr>rdr_cells := cs,
      item := sp\<lparr>waiting_readers := 0, readdone_inactive := False\<rparr>\<rparr>)"
    if "wf_world (?w2\<lparr>rdr_cells := cs\<rparr>)" for cs
    using that by (simp add: wf_idle_def wf_world_def)
  show ?thesis
  proof (cases "sp_wait_test ts ev = 0")
    case True
    with ld sp wf4 [OF wf3] cell show ?thesis
      by (auto simp: sp_read_wait_def p_def [symmetric] Let_def insert_absorb domI)
  next
    case False
    have "wf_world (?w2\<lparr>rdr_cells := rdr_cells w\<rparr>)" using sp(2) by simp
    with False sp wf4 [of "rdr_cells w"] show ?thesis
      by (auto simp: sp_read_wait_def p_def [symmetric] Let_def)
  qed
qed

lemma sp_read_any:
  fixes w :: "'a sp_world_scheme"
  assumes wf: "wf_idle w" and env: "env_ok E" and cell: "rdr_cells w a = Some r" and buf: "n \<le> length buf"
  shows "\<exists>rc b w' :: 'a sp_world_scheme. sp_read E (Some a) (Some buf) n t w = Inr (rc, Some b, w')
    \<and> wf_idle w' \<and> length b = length buf \<and> dom (rdr_cells w') = dom (rdr_cells w)"
proof (cases "n = 0")
  case True
  with wf show ?thesis by (simp add: sp_read_def)
next
  case False
  define ev where "ev = os_event E (n_read w)"
  have ev: "list_all frame_ok (ev_before ev)" "list_all frame_ok (ev_missed ev)"
    "pred_option frame_ok (ev_during ev)" using env by (auto simp: env_ok_def ev_def)
  let ?w0 = "w\<lparr>n_read := Suc (n_read w)\<rparr>"
  have w0: "wf_world ?w0" and idle: "waiting_readers (item ?w0) = 0" using wf by (simp_all add: wf_idle_def)
  let ?w1 = "upd_item (fold publish_item (ev_before ev)) ?w0"
  note pb = sp_publish_all_eq [OF w0 ev(1)]
  have cell1: "rdr_cells ?w1 a = Some r" using cell by simp
  define look where "look = (if ev_lock ev \<and> last_read r \<noteq> read_id (item ?w1)
      then sub_loadread a buf n ?w1 else Inr (0, buf, ?w1))"
  have "\<exists>rc b r'. look = Inr (rc, b, ?w1\<lparr>rdr_cells := (rdr_cells w)(a \<mapsto> r')\<rparr>) \<and> length b = length buf"
  proof (cases "ev_lock ev \<and> last_read r \<noteq> read_id (item ?w1)")
    case True
    with sub_loadread_any [OF conjunct2 [OF pb] cell1 buf] show ?thesis by (fastforce simp: look_def)
  next
    case False
    have "?w1 = ?w1\<lparr>rdr_cells := (rdr_cells w)(a \<mapsto> r)\<rparr>" using cell by (simp add: fun_upd_idem)
    with False show ?thesis unfolding look_def by (metis (no_types, lifting))
  qed
  then obtain rc b r' where lk: "look = Inr (rc, b, ?w1\<lparr>rdr_cells := (rdr_cells w)(a \<mapsto> r')\<rparr>)"
    "length b = length buf" by blast
  let ?w2 = "?w1\<lparr>rdr_cells := (rdr_cells w)(a \<mapsto> r')\<rparr>"
  have w2: "wf_world ?w2" using wf_world_cell [OF conjunct2 [OF pb] cell1, of r'] by simp
  let ?w3 = "upd_item (fold publish_item (ev_missed ev)) ?w2"
  note pm = sp_publish_all_eq [OF w2 ev(2)]
  have "\<exists>rc' b' w'. sp_read_wait (sp_deadline t (ev_now ev)) ev a b n ?w3 = Inr (rc', b', w')
      \<and> wf_idle w' \<and> length b' = length b \<and> dom (rdr_cells w') = dom (rdr_cells ?w3)"
    by (rule sp_read_wait_any) (use pm buf lk(2) ev(3) idle in auto)
  then obtain rc' b' w' where wt: "sp_read_wait (sp_deadline t (ev_now ev)) ev a b n ?w3 = Inr (rc', b', w')"
    "wf_idle w'" "length b' = length b" "dom (rdr_cells w') = dom (rdr_cells w)"
    using cell by (auto simp: insert_absorb domI)
  have rd: "sp_read E (Some a) (Some buf) n t w =
      rbind look (\<lambda>(rc, buf, w).
        rbind (if rc = 0 then rbind (sp_publish_all (ev_missed ev) w)
                 (sp_read_wait (sp_deadline t (ev_now ev)) ev a buf n)
               else Inr (rc, buf, w)) (\<lambda>(rc, buf, w). Inr (rc, Some buf, w)))"
    using False pb cell1
    by (simp add: sp_read_def ev_def [symmetric] rdr_cell_def Let_def look_def)
  have "wf_idle ?w2" using w2 idle by (simp add: wf_idle_def)
  with rd lk wt pm cell show ?thesis by (cases "rc = 0") (auto simp: insert_absorb domI)
qed

section \<open>Sequences of calls\<close>

text \<open>
  A client is a list of calls of the interface of \<open>sockpush.h\<close> with their arguments: pointers may
  be NULL, a reader is an address, live or not, a buffer is the block it points to, the size that
  is passed with it is free. \<open>legal\<close> is what C asks of the caller: a reader that is used is live,
  and a buffer that is used has at least the stated size.
\<close>

datatype call =
    Call_create sp_handle_t
  | Call_destroy "nat option"
  | Call_purge "nat option"
  | Call_read "nat option" "byte list option" nat nat
  | Call_write sp_handle_t "byte list option" nat
  | Call_sendcmd sp_handle_t "byte list option" nat

fun do_call :: "sp_env \<Rightarrow> call \<Rightarrow> 'a sp_world_scheme \<Rightarrow> 'a sp_world_scheme res" where
  "do_call E (Call_create h) w = rbind (sp_reader_create E h w) (\<lambda>(r, w). Inr w)"
| "do_call E (Call_destroy r) w = sp_reader_destroy E r w"
| "do_call E (Call_purge r) w = sp_reader_purge E r w"
| "do_call E (Call_read r b n t) w = rbind (sp_read E r b n t w) (\<lambda>(rc, b, w). Inr w)"
| "do_call E (Call_write h b n) w = rbind (sp_write E h b n w) (\<lambda>(rc, w). Inr w)"
| "do_call E (Call_sendcmd h b n) w = rbind (sp_sendcmd E h b n w) (\<lambda>(rc, w). Inr w)"

primrec do_calls :: "sp_env \<Rightarrow> call list \<Rightarrow> 'a sp_world_scheme \<Rightarrow> 'a sp_world_scheme res" where
  "do_calls E [] w = Inr w"
| "do_calls E (x # xs) w = rbind (do_call E x w) (do_calls E xs)"

definition live_or_null :: "'a sp_world_scheme \<Rightarrow> nat option \<Rightarrow> bool" where
  "live_or_null w r \<longleftrightarrow> (case r of None \<Rightarrow> True | Some a \<Rightarrow> rdr_cells w a \<noteq> None)"

fun legal :: "'a sp_world_scheme \<Rightarrow> call \<Rightarrow> bool" where
  "legal w (Call_create h) = True"
| "legal w (Call_destroy r) = live_or_null w r"
| "legal w (Call_purge r) = live_or_null w r"
| "legal w (Call_read r b n t) =
     (r = None \<or> b = None \<or> n = 0 \<or> live_or_null w r \<and> n \<le> length (the b))"
| "legal w (Call_write h b n) = (h = SP_NULL \<or> b = None \<or> n \<le> length (the b))"
| "legal w (Call_sendcmd h b n) = (h = SP_NULL \<or> b = None \<or> n \<le> length (the b))"

text \<open>Every call of the list is legal in the state in which it is made.\<close>

primrec legal_run :: "sp_env \<Rightarrow> call list \<Rightarrow> 'a sp_world_scheme \<Rightarrow> bool" where
  "legal_run E [] w = True"
| "legal_run E (x # xs) w =
     (legal w x \<and> (case do_call E x w of Inl _ \<Rightarrow> True | Inr w' \<Rightarrow> legal_run E xs w'))"

text \<open>A write changes neither the item nor the readers.\<close>

lemma sub_write_ok:
  assumes "wf_idle w" and "n \<le> length d" and "calls_return E"
  shows "\<exists>rc w'. sub_write E d n b w = Inr (rc, w') \<and> wf_idle w' \<and> rdr_cells w' = rdr_cells w"
proof -
  have subs: "subs (item w) = 0" using assms(1) by (simp add: wf_idle_def wf_world_def wf_item_def)
  obtain r1 where "os_write E (n_write w) (take n d) = Some r1" using calls_return_write [OF assms(3)] .
  moreover obtain r2 where "os_write E (Suc (n_write w)) [LF] = Some r2" using calls_return_write [OF assms(3)] .
  ultimately show ?thesis using assms subs by (auto simp: sub_write_def sp_oswrite_def wf_idle_def)
qed

lemma sp_sendcmd_ok:
  assumes "wf_idle w" and "n \<le> length d" and "calls_return E"
  shows "\<exists>rc w'. sp_sendcmd E h (Some d) n w = Inr (rc, w') \<and> wf_idle w' \<and> rdr_cells w' = rdr_cells w"
  using sub_write_ok [OF assms, of "d ! (n - 1) \<noteq> LF"] assms
  by (cases h) (auto simp: sp_sendcmd_def ld_def)

lemma sp_write_ok:
  assumes "wf_idle w" and "n \<le> length d" and "calls_return E"
  shows "\<exists>rc w'. sp_write E h (Some d) n w = Inr (rc, w') \<and> wf_idle w' \<and> rdr_cells w' = rdr_cells w"
  using sub_write_ok [OF assms, of False] assms by (cases h) (auto simp: sp_write_def)

lemma create_ok:
  assumes "wf_idle w" and "calls_return E"
  shows "\<exists>r w'. sp_reader_create E h w = Inr (r, w') \<and> wf_idle w'"
proof -
  have wf: "wf_world w" and mx: "max_readers (item w) = 1"
    using assms(1) by (auto simp: wf_idle_def wf_world_def wf_item_def SP_MAX_READERS_def)
  consider "h = SP_NULL" | "h = SP_ITEM" "readers (item w) = 0" | "h = SP_ITEM" "readers (item w) = 1"
    using wf_world_readers [OF wf] by (cases h) auto
  then show ?thesis
  proof cases
    case 2
    have "wf_idle (w\<lparr>n_alloc := k\<rparr>)" for k using assms(1) by (simp add: wf_idle_def)
    with 2 assms wf_with_reader [OF assms(1)] show ?thesis by (auto simp: sp_reader_create_eq)
  qed (use assms(1) mx in \<open>simp_all add: sp_reader_create_def\<close>)
qed

lemma do_call_ok:
  fixes w :: "'a sp_world_scheme"
  assumes wf: "wf_idle w" and env: "env_ok E" "calls_return E" and leg: "legal w x"
  shows "\<exists>w' :: 'a sp_world_scheme. do_call E x w = Inr w' \<and> wf_idle w'"
proof -
  have one: "readers (item w) = 1" if "rdr_cells w a \<noteq> None" for a
    using that wf_world_readers [of w] wf by (auto simp: wf_idle_def)
  have cell: "wf_idle (w\<lparr>rdr_cells := (rdr_cells w)(a \<mapsto> r')\<rparr>)" if "rdr_cells w a = Some r" for a r r'
    using wf that wf_world_cell by (auto simp: wf_idle_def)
  show ?thesis
  proof (cases x)
    case (Call_create h)
    with create_ok [OF wf env(2), of h] show ?thesis by auto
  next
    case (Call_destroy r)
    show ?thesis
    proof (cases r)
      case (Some a)
      then have live: "rdr_cells w a \<noteq> None" using leg Call_destroy by (simp add: live_or_null_def)
      from sp_reader_destroy_ok [OF wf one [OF live] live, of E] env(2) Some Call_destroy show ?thesis
        by auto
    qed (use Call_destroy wf in \<open>simp add: sp_reader_destroy_def\<close>)
  next
    case (Call_purge r)
    then show ?thesis using wf leg cell env(2)
      by (cases r) (auto simp: sp_reader_purge_def live_or_null_def rdr_cell_def)
  next
    case (Call_read r b n t)
    show ?thesis
    proof (cases "r = None \<or> b = None \<or> n = 0")
      case True
      then show ?thesis using Call_read wf by (auto simp: sp_read_def split: option.splits)
    next
      case False
      then obtain a buf c where *: "r = Some a" "b = Some buf" "rdr_cells w a = Some c" "n \<le> length buf"
        using leg Call_read by (auto simp: live_or_null_def)
      from sp_read_any [OF wf env(1) *(3,4), of t] * Call_read show ?thesis by auto
    qed
  next
    case (Call_write h b n)
    then show ?thesis using sp_write_ok [OF wf _ env(2), of n "the b" h] leg wf
      by (cases b; cases h) (auto simp: sp_write_def)
  next
    case (Call_sendcmd h b n)
    then show ?thesis using sp_sendcmd_ok [OF wf _ env(2), of n "the b" h] leg wf
      by (cases b; cases h) (auto simp: sp_sendcmd_def)
  qed
qed

text \<open>A use of a released reader is never overlooked.\<close>

lemma released_reader:
  assumes "rdr_cells w a = None"
  shows "do_call E (Call_destroy (Some a)) w = Inl Use_after_free"
    and "do_call E (Call_purge (Some a)) w = Inl Use_after_free"
  using assms by (simp_all add: sp_reader_destroy_def sp_reader_purge_def rdr_cell_def)


definition demo_calls :: "call list" where
  "demo_calls = [Call_create SP_NULL, Call_create SP_ITEM, Call_create SP_ITEM,
     Call_read None (Some []) 4 0, Call_sendcmd SP_ITEM (Some ''ls'') 2,
     Call_read (Some 0) (Some ''12'') 2 500, Call_purge (Some 0), Call_destroy (Some 0),
     Call_destroy None, Call_write SP_NULL None 9]"


section \<open>Subscribers\<close>

text \<open>What a dispatch does to one subscriber: its copy of the data and the call it gets.\<close>

definition sub_takes :: "u32 \<Rightarrow> spsubscr_t \<Rightarrow> bool" where
  "sub_takes flag s \<longleftrightarrow> sub_flags s AND flag \<noteq> 0"

definition sub_after :: "u32 \<Rightarrow> byte list \<Rightarrow> nat \<Rightarrow> spsubscr_t \<Rightarrow> spsubscr_t" where
  "sub_after flag data n s =
     (if sub_takes flag s then
        s\<lparr>sub_buf := map_option (\<lambda>b. take (min n (sub_max s)) data @ drop (min n (sub_max s)) b) (sub_buf s)\<rparr>
      else s)"

definition sub_called :: "u32 \<Rightarrow> byte list \<Rightarrow> nat \<Rightarrow> spsubscr_t \<Rightarrow> (byte list \<times> nat) list" where
  "sub_called flag data n s =
     (if sub_takes flag s \<and> action s
      then [(case sub_buf (sub_after flag data n s) of None \<Rightarrow> data | Some b \<Rightarrow> b, min n (sub_max s))]
      else [])"

text \<open>The copy fits: the buffer of a subscriber has the size it was registered with, and the data
  are as long as stated, as far as the subscriber takes them.\<close>

definition sub_fits :: "byte list \<Rightarrow> nat \<Rightarrow> spsubscr_t \<Rightarrow> bool" where
  "sub_fits data n s \<longleftrightarrow>
     (case sub_buf s of None \<Rightarrow> True | Some b \<Rightarrow> sub_max s \<le> length b \<and> min n (sub_max s) \<le> length data)"

lemma sub_sendtosub_eq:
  assumes "sub_fits data n s" and "sub_takes flag s"
  shows "sub_sendtosub s data n = Inr (sub_after flag data n s, sub_called flag data n s)"
proof (cases "sub_buf s")
  case (Some b)
  have "(if n > sub_max s then sub_max s else n) = min n (sub_max s)" by simp
  with Some assms show ?thesis
    by (auto simp: sub_sendtosub_def sub_after_def sub_called_def sub_fits_def memcpy_def Let_def)
qed (use assms in \<open>auto simp: sub_sendtosub_def sub_after_def sub_called_def\<close>)

lemma sub_fits_after: "sub_fits data n s \<Longrightarrow> sub_fits data n (sub_after flag data n s)"
  by (auto simp: sub_fits_def sub_after_def split: option.splits)

text \<open>The state after the subscribers from the \<open>i\<close>-th on have been served.\<close>

definition dispatched :: "u32 \<Rightarrow> byte list \<Rightarrow> nat \<Rightarrow> spsubscr_t list \<Rightarrow> nat \<Rightarrow> 'a sp_world_scheme \<Rightarrow> 'a sp_world_scheme" where
  "dispatched flag data n ss i w =
     (upd_item (\<lambda>sp. sp\<lparr>sub_slots := map Some (take i ss @ map (sub_after flag data n) (drop i ss))\<rparr>) w)
       \<lparr>sub_calls := sub_calls w @ concat (map (sub_called flag data n) (drop i ss))\<rparr>"

lemma sp_dispatch_from:
  fixes w :: "'a sp_world_scheme"
  assumes "sub_slots (item w) = map Some ss" and "unat (subs (item w)) = length ss"
    and "list_all (sub_fits data n) ss" and "i \<le> length ss"
  shows "sp_dispatch flag data n i w = Inr (dispatched flag data n ss i w)"
  using assms
proof (induction "length ss - i" arbitrary: i ss w)
  case 0
  then show ?case by (subst sp_dispatch.simps) (simp add: dispatched_def)
next
  case (Suc k)
  let ?s = "ss ! i" and ?ss = "ss[i := sub_after flag data n (ss ! i)]"
  have i: "i < length ss" using Suc.hyps(2) by simp
  have fit: "sub_fits data n ?s" using Suc.prems(3) i by (simp add: list_all_length)
  have dr: "drop i ss = ?s # drop (Suc i) ss" "take (Suc i) ss = take i ss @ [?s]"
    using i by (simp_all add: Cons_nth_drop_Suc take_Suc_conv_app_nth)
  have here: "sub_slots (item w) ! i = Some ?s" "i < length (sub_slots (item w))"
    using i Suc.prems(1) by simp_all
  show ?case
  proof (cases "sub_takes flag ?s")
    case True
    let ?w = "(upd_item (\<lambda>sp. sp\<lparr>sub_slots := (sub_slots sp)[i := Some (sub_after flag data n ?s)]\<rparr>) w)
       \<lparr>sub_calls := sub_calls w @ sub_called flag data n ?s\<rparr>"
    have "sub_fits data n (?ss ! k)" if "k < length ?ss" for k
      using that Suc.prems(3) sub_fits_after [OF fit, of flag] i by (cases "k = i") (auto simp: list_all_length)
    then have fits: "list_all (sub_fits data n) ?ss" by (simp add: list_all_length)
    have "sp_dispatch flag data n (Suc i) ?w = Inr (dispatched flag data n ?ss (Suc i) ?w)"
      by (rule Suc.hyps(1)) (use Suc i fits in \<open>simp_all add: map_update\<close>)
    moreover have "dispatched flag data n ?ss (Suc i) ?w = dispatched flag data n ss i w"
      using i dr by (simp add: dispatched_def take_Suc_conv_app_nth)
    moreover have "sp_dispatch flag data n i w = sp_dispatch flag data n (Suc i) ?w"
      using i here True Suc.prems(2) sub_sendtosub_eq [OF fit True]
      by (subst sp_dispatch.simps) (simp add: sub_takes_def)
    ultimately show ?thesis by simp
  next
    case False
    then have same: "sub_after flag data n ?s = ?s" "sub_called flag data n ?s = []"
      by (simp_all add: sub_after_def sub_called_def)
    have "sp_dispatch flag data n (Suc i) w = Inr (dispatched flag data n ss (Suc i) w)"
      by (rule Suc.hyps(1)) (use Suc i in simp_all)
    moreover have "dispatched flag data n ss (Suc i) w = dispatched flag data n ss i w"
      using dr same by (simp add: dispatched_def)
    moreover have "sp_dispatch flag data n i w = sp_dispatch flag data n (Suc i) w"
      using i here False Suc.prems(2) by (subst sp_dispatch.simps) (simp add: sub_takes_def)
    ultimately show ?thesis by simp
  qed
qed

lemma sp_dispatch_all:
  fixes w :: "'a sp_world_scheme"
  assumes "sub_slots (item w) = map Some ss" and "unat (subs (item w)) = length ss"
    and "list_all (sub_fits data n) ss"
  shows "sp_dispatch flag data n 0 w =
    Inr ((upd_item (\<lambda>sp. sp\<lparr>sub_slots := map Some (map (sub_after flag data n) ss)\<rparr>) w)
       \<lparr>sub_calls := sub_calls w @ concat (map (sub_called flag data n) ss)\<rparr>)"
  using sp_dispatch_from [OF assms, of 0 flag] by (simp add: dispatched_def)

text \<open>C26: the dispatch serves each subscriber once and in order: for every list of subscribers, those
  whose flags match get the data, at most as much as they registered for, into their own buffer
  where they have one, and one call with that size; the others, and everything else, are left
  alone.\<close>

theorem sp_dispatch_spec:
  fixes w :: "'a sp_world_scheme"
  assumes "sub_slots (item w) = map Some ss" and "unat (subs (item w)) = length ss"
    and "list_all (sub_fits data n) ss"
  shows "sp_dispatch flag data n 0 w =
    Inr ((upd_item (\<lambda>sp. sp\<lparr>sub_slots := map Some (map (sub_after flag data n) ss)\<rparr>) w)
       \<lparr>sub_calls := sub_calls w @ concat (map (sub_called flag data n) ss)\<rparr>)"
  by (rule sp_dispatch_all [OF assms])

definition with_sub :: "spsubscr_t \<Rightarrow> sp_world" where
  "with_sub s = sp_start\<lparr>item := (item sp_start)\<lparr>subs := 1, sub_slots := [Some s]\<rparr>\<rparr>"

theorem sp_dispatch_spec_witness:
  "\<exists>w'. sp_dispatch SP_SUB_INBOUND demo_line 3 0
        (with_sub \<lparr>sub_flags = 3, action = True, sub_buf = Some (replicate 2 NUL), sub_max = 2\<rparr>) = Inr w'
     \<and> sub_calls w' = [(''ok'', 2)]"
proof -
  let ?s = "\<lparr>sub_flags = 3, action = True, sub_buf = Some (replicate 2 NUL), sub_max = 2\<rparr>"
  have "sub_slots (item (with_sub ?s)) = map Some [?s]" "unat (subs (item (with_sub ?s))) = length [?s]"
    "list_all (sub_fits demo_line 3) [?s]" "sub_calls (with_sub ?s) = []"
    by (simp_all add: with_sub_def sp_start_def sub_fits_def)
  moreover have "sub_called SP_SUB_INBOUND demo_line 3 ?s = [(''ok'', 2)]"
    by (simp add: sub_called_def sub_takes_def sub_after_def SP_SUB_INBOUND_def demo_line_def numeral_nat)
  ultimately show ?thesis using sp_dispatch_spec [of "with_sub ?s" "[?s]" demo_line 3] by simp
qed

text \<open>C32: the size a subscriber of outgoing data is told is not the size of the data: after a command
  without a newline at its end it is the result of the second write, 1, however long the command
  is, so that a subscriber with a buffer gets the first byte only (where the socket takes every byte
  and the mutex of the handle can be had; the call does not return when it is never released).\<close>

theorem sp_sendcmd_outbound_size:
  fixes w :: "'a sp_world_scheme"
  assumes "writes_all E" and "0 < n" and "n \<le> length d" and "d ! (n - 1) \<noteq> LF"
    and "sub_slots (item w) = map Some ss" and "unat (subs (item w)) = length ss" and "ss \<noteq> []"
    and "list_all (sub_fits d 1) ss"
  shows "if os_user E (n_read w) then
      (\<exists>w'. sp_sendcmd E SP_ITEM (Some d) n w = Inr (1, w')
        \<and> sock_out w' = sock_out w @ take n d @ [LF]
        \<and> sub_calls w' = sub_calls w @ concat (map (sub_called SP_SUB_OUTBOUND d 1) ss)
        \<and> (\<forall>c \<in> set (concat (map (sub_called SP_SUB_OUTBOUND d 1) ss)). snd c \<le> 1))
    else sp_sendcmd E SP_ITEM (Some d) n w = Inl Blocked"
proof -
  have "subs (item w) \<noteq> 0" using assms(6,7) by auto
  then have pos: "0 < subs (item w)" by (simp add: word_neq_0_conv)
  have ld: "ld d (n - 1) = Inr (d ! (n - 1))" using assms(2,3) by (intro ld_ok) simp
  let ?w = "w\<lparr>n_write := Suc (Suc (n_write w)), sock_out := sock_out w @ take n d @ [LF]\<rparr>"
  have "sp_dispatch SP_SUB_OUTBOUND d 1 0 ?w =
    Inr ((upd_item (\<lambda>sp. sp\<lparr>sub_slots := map Some (map (sub_after SP_SUB_OUTBOUND d 1) ss)\<rparr>) ?w)
       \<lparr>sub_calls := sub_calls ?w @ concat (map (sub_called SP_SUB_OUTBOUND d 1) ss)\<rparr>)"
    by (rule sp_dispatch_all) (use assms(5,6,8) in simp_all)
  moreover have "sp_sendcmd E SP_ITEM (Some d) n w = rbind (user_lock E w) (\<lambda>_.
      rbind (sp_dispatch SP_SUB_OUTBOUND d 1 0 ?w) (\<lambda>w. Inr (1, w)))"
    using assms(1-4) pos ld
    by (simp add: sp_sendcmd_def sub_write_def sp_oswrite_def writes_all_def)
  ultimately show ?thesis by (auto simp: sub_called_def user_lock_def)
qed

theorem sp_sendcmd_outbound_size_witness:
  "\<exists>w'. sp_sendcmd (env_of []) SP_ITEM (Some ''reboot'') 6
        (with_sub \<lparr>sub_flags = 2, action = True, sub_buf = Some (replicate 8 NUL), sub_max = 8\<rparr>) = Inr (1, w')
     \<and> sub_calls w' = [(CHR ''r'' # replicate 7 NUL, 1)]"
proof -
  let ?s = "\<lparr>sub_flags = 2, action = True, sub_buf = Some (replicate 8 NUL), sub_max = 8\<rparr>"
  have "sub_slots (item (with_sub ?s)) = map Some [?s]" "unat (subs (item (with_sub ?s))) = length [?s]"
    "list_all (sub_fits ''reboot'' 1) [?s]" "sub_calls (with_sub ?s) = []"
    by (simp_all add: with_sub_def sp_start_def sub_fits_def)
  moreover have "sub_called SP_SUB_OUTBOUND ''reboot'' 1 ?s = [(CHR ''r'' # replicate 7 NUL, 1)]"
    by (simp add: sub_called_def sub_takes_def sub_after_def SP_SUB_OUTBOUND_def numeral_nat)
  moreover have "writes_all (env_of [])" "os_user (env_of []) (n_read (with_sub ?s))"
    by (simp_all add: writes_all_def sp_demo_defs)
  ultimately show ?thesis
    using sp_sendcmd_outbound_size [of "env_of []" 6 "''reboot''" "with_sub ?s" "[?s]"] by auto
qed

end
