(* ===== verification/Cliopt.thy ===== *)
theory Cliopt
  imports Cat_Base
begin

text \<open>
  The client options of \<open>main/cliopt.c\<close> and \<open>include/cliopt.h\<close>: the option structure, the
  enumerations, and one definition per accessor. The file-static pointer \<open>master\<close> is the
  argument of type \<open>cliopt_t option\<close>, \<open>None\<close> before \<open>cliopt_init\<close>; an accessor called then
  dereferences NULL.
\<close>

section \<open>Data\<close>

datatype INTF_Type = INTF_interactive | INTF_pipe | INTF_socket | INTF_max

datatype FORMAT_Type =
    FORMAT_Default | FORMAT_Json | FORMAT_JsonHex | FORMAT_Bintex | FORMAT_Hex | FORMAT_MAX

record cliopt_t =
  verbose_on :: bool
  debug_on :: bool
  format :: FORMAT_Type
  mempool_size :: nat
  timeout_ms :: int
  tries :: int

definition OTTERCAT_PARAM_MMAP_PAGESIZE :: nat where
  "OTTERCAT_PARAM_MMAP_PAGESIZE = 128 * 1024"

section \<open>Operations\<close>

definition cliopt_init :: "cliopt_t \<Rightarrow> cliopt_t option" where
  "cliopt_init new_master = Some (new_master\<lparr>
     verbose_on := False,
     debug_on := False,
     format := FORMAT_JsonHex,
     mempool_size := OTTERCAT_PARAM_MMAP_PAGESIZE,
     timeout_ms := 500,
     tries := 1\<rparr>)"

definition cliopt_isverbose :: "cliopt_t option \<Rightarrow> bool res" where
  "cliopt_isverbose master = rbind (deref master) (\<lambda>m. Inr (verbose_on m))"

definition cliopt_isdebug :: "cliopt_t option \<Rightarrow> bool res" where
  "cliopt_isdebug master = rbind (deref master) (\<lambda>m. Inr (debug_on m))"

definition cliopt_setverbose :: "bool \<Rightarrow> cliopt_t option \<Rightarrow> cliopt_t option res" where
  "cliopt_setverbose val master = rbind (deref master) (\<lambda>m. Inr (Some (m\<lparr>verbose_on := val\<rparr>)))"

definition cliopt_setdebug :: "bool \<Rightarrow> cliopt_t option \<Rightarrow> cliopt_t option res" where
  "cliopt_setdebug val master = rbind (deref master) (\<lambda>m. Inr (Some (m\<lparr>debug_on := val\<rparr>)))"

definition cliopt_getformat :: "cliopt_t option \<Rightarrow> FORMAT_Type res" where
  "cliopt_getformat master = rbind (deref master) (\<lambda>m. Inr (format m))"

definition cliopt_getpoolsize :: "cliopt_t option \<Rightarrow> nat res" where
  "cliopt_getpoolsize master = rbind (deref master) (\<lambda>m. Inr (mempool_size m))"

definition cliopt_setpoolsize :: "nat \<Rightarrow> cliopt_t option \<Rightarrow> cliopt_t option res" where
  "cliopt_setpoolsize poolsize master =
     rbind (deref master) (\<lambda>m. Inr (Some (m\<lparr>mempool_size := poolsize\<rparr>)))"

definition cliopt_gettimeout :: "cliopt_t option \<Rightarrow> int res" where
  "cliopt_gettimeout master = rbind (deref master) (\<lambda>m. Inr (timeout_ms m))"

definition cliopt_settimeout :: "int \<Rightarrow> cliopt_t option \<Rightarrow> cliopt_t option res" where
  "cliopt_settimeout ms master = rbind (deref master) (\<lambda>m. Inr (Some (m\<lparr>timeout_ms := ms\<rparr>)))"

definition cliopt_gettries :: "cliopt_t option \<Rightarrow> int res" where
  "cliopt_gettries master = rbind (deref master) (\<lambda>m. Inr (tries m))"

definition cliopt_settries :: "int \<Rightarrow> cliopt_t option \<Rightarrow> cliopt_t option res" where
  "cliopt_settries retries master = rbind (deref master) (\<lambda>m. Inr (Some (m\<lparr>tries := retries\<rparr>)))"

lemmas cliopt_defs =
  cliopt_isverbose_def cliopt_isdebug_def cliopt_setverbose_def cliopt_setdebug_def
  cliopt_getformat_def cliopt_getpoolsize_def cliopt_setpoolsize_def
  cliopt_gettimeout_def cliopt_settimeout_def cliopt_gettries_def cliopt_settries_def

section \<open>The contract of an option\<close>

text \<open>
  What a client of an option relies on: once there is a structure, every write succeeds, a
  read after a write gives the value written, and an earlier write to the same option leaves
  no trace.
\<close>

locale cli_option =
  fixes get :: "'c option \<Rightarrow> 'v res"
    and set :: "'v \<Rightarrow> 'c option \<Rightarrow> 'c option res"
  assumes set_null: "set v None = Inl Null_deref"
    and set_some: "\<exists>c'. set v (Some c) = Inr (Some c')"
    and get_set: "set v (Some c) = Inr m \<Longrightarrow> get m = Inr v"
    and set_set: "set v (Some c) = Inr m \<Longrightarrow> set u m = set u (Some c)"
begin

primrec set_all :: "'v list \<Rightarrow> 'c option \<Rightarrow> 'c option res" where
  "set_all [] m = Inr m"
| "set_all (v # vs) m = rbind (set v m) (set_all vs)"

lemma set_all_snoc: "set_all (vs @ [v]) (Some c) = set v (Some c)"
proof (induction vs arbitrary: c)
  case Nil
  obtain c' where "set v (Some c) = Inr (Some c')" using set_some by blast
  then show ?case by simp
next
  case (Cons u vs)
  obtain c' where u: "set u (Some c) = Inr (Some c')" using set_some by blast
  then have "set v (Some c') = set v (Some c)" by (rule set_set)
  with u Cons.IH show ?case by simp
qed

lemma get_after_set_all: "vs \<noteq> [] \<Longrightarrow> rbind (set_all vs (Some c)) get = Inr (last vs)"
proof -
  assume "vs \<noteq> []"
  then have vs: "vs = butlast vs @ [last vs]" by simp
  obtain c' where c': "set (last vs) (Some c) = Inr (Some c')" using set_some by blast
  then have "get (Some c') = Inr (last vs)" by (rule get_set)
  with c' show ?thesis by (subst vs) (simp add: set_all_snoc)
qed

end

text \<open>An option whose writes leave another observation of the structure alone.\<close>

locale cli_keeps = cli_option get set
  for get :: "'c option \<Rightarrow> 'v res" and set :: "'v \<Rightarrow> 'c option \<Rightarrow> 'c option res" +
  fixes other :: "'c option \<Rightarrow> 'o"
  assumes other_set: "set v (Some c) = Inr m \<Longrightarrow> other m = other (Some c)"
begin

lemma set_step:
  obtains c' where "set v (Some c) = Inr (Some c')" and "get (Some c') = Inr v"
    and "other (Some c') = other (Some c)"
  using set_some [of v c] get_set other_set by metis

lemma other_set_all: "set_all vs (Some c) = Inr m \<Longrightarrow> other m = other (Some c)"
proof (induction vs arbitrary: c)
  case (Cons v vs)
  obtain c' where "set v (Some c) = Inr (Some c')" "other (Some c') = other (Some c)"
    using set_step by metis
  with Cons show ?case by simp
qed simp

end

interpretation verbose_opt: cli_keeps cliopt_isverbose cliopt_setverbose
    "\<lambda>m. (cliopt_getformat m, cliopt_getpoolsize m)"
  by unfold_locales (auto simp: cliopt_defs)

interpretation debug_opt: cli_keeps cliopt_isdebug cliopt_setdebug
    "\<lambda>m. (cliopt_isverbose m, cliopt_getformat m, cliopt_getpoolsize m)"
  by unfold_locales (auto simp: cliopt_defs)

interpretation timeout_opt: cli_keeps cliopt_gettimeout cliopt_settimeout
    "\<lambda>m. (cliopt_isverbose m, cliopt_isdebug m, cliopt_getformat m, cliopt_getpoolsize m)"
  by unfold_locales (auto simp: cliopt_defs)

interpretation tries_opt: cli_keeps cliopt_gettries cliopt_settries
    "\<lambda>m. (cliopt_isverbose m, cliopt_isdebug m, cliopt_gettimeout m, cliopt_getformat m,
       cliopt_getpoolsize m)"
  by unfold_locales (auto simp: cliopt_defs)

interpretation poolsize_opt: cli_option cliopt_getpoolsize cliopt_setpoolsize
  by unfold_locales (auto simp: cliopt_defs)

section \<open>The configuration of a run\<close>

text \<open>The sequence in which \<open>main\<close> fills the structure (\<open>main.c\<close>, "Set cliopt struct").\<close>

definition cli_configure :: "cliopt_t \<Rightarrow> bool \<Rightarrow> bool \<Rightarrow> int \<Rightarrow> int \<Rightarrow> cliopt_t option res" where
  "cli_configure cliopts verbose_val debug_val timeout_val tries_val =
     rbind (cliopt_setverbose verbose_val (cliopt_init cliopts)) (\<lambda>m.
     rbind (cliopt_setdebug debug_val m) (\<lambda>m.
     rbind (cliopt_settimeout timeout_val m) (\<lambda>m.
     cliopt_settries tries_val m)))"

text \<open>The configuration of a run succeeds, and every getter then gives what \<open>main\<close> has set,
  whatever the structure held before: no setter disturbs what another has written, and the output
  format and the pool size keep the values of the initialization.\<close>

theorem cli_configure_getters:
  "\<exists>m. cli_configure cliopts v d t n = Inr m
    \<and> cliopt_isverbose m = Inr v \<and> cliopt_isdebug m = Inr d
    \<and> cliopt_gettimeout m = Inr t \<and> cliopt_gettries m = Inr n
    \<and> cliopt_getformat m = Inr FORMAT_JsonHex \<and> cliopt_getpoolsize m = Inr 131072"
proof -
  obtain c0 where c0: "cliopt_init cliopts = Some c0"
    "cliopt_getformat (Some c0) = Inr FORMAT_JsonHex" "cliopt_getpoolsize (Some c0) = Inr 131072"
    by (simp add: cliopt_init_def cliopt_defs OTTERCAT_PARAM_MMAP_PAGESIZE_def)
  obtain c1 where c1: "cliopt_setverbose v (Some c0) = Inr (Some c1)" "cliopt_isverbose (Some c1) = Inr v"
    "(cliopt_getformat (Some c1), cliopt_getpoolsize (Some c1))
     = (cliopt_getformat (Some c0), cliopt_getpoolsize (Some c0))"
    by (rule verbose_opt.set_step)
  obtain c2 where c2: "cliopt_setdebug d (Some c1) = Inr (Some c2)" "cliopt_isdebug (Some c2) = Inr d"
    "(cliopt_isverbose (Some c2), cliopt_getformat (Some c2), cliopt_getpoolsize (Some c2))
     = (cliopt_isverbose (Some c1), cliopt_getformat (Some c1), cliopt_getpoolsize (Some c1))"
    by (rule debug_opt.set_step)
  obtain c3 where c3: "cliopt_settimeout t (Some c2) = Inr (Some c3)" "cliopt_gettimeout (Some c3) = Inr t"
    "(cliopt_isverbose (Some c3), cliopt_isdebug (Some c3), cliopt_getformat (Some c3),
      cliopt_getpoolsize (Some c3))
     = (cliopt_isverbose (Some c2), cliopt_isdebug (Some c2), cliopt_getformat (Some c2),
      cliopt_getpoolsize (Some c2))"
    by (rule timeout_opt.set_step)
  obtain c4 where "cliopt_settries n (Some c3) = Inr (Some c4)" "cliopt_gettries (Some c4) = Inr n"
    "(cliopt_isverbose (Some c4), cliopt_isdebug (Some c4), cliopt_gettimeout (Some c4),
      cliopt_getformat (Some c4), cliopt_getpoolsize (Some c4))
     = (cliopt_isverbose (Some c3), cliopt_isdebug (Some c3), cliopt_gettimeout (Some c3),
      cliopt_getformat (Some c3), cliopt_getpoolsize (Some c3))"
    by (rule tries_opt.set_step)
  with c0 c1 c2 c3 show ?thesis by (intro exI [of _ "Some c4"]) (simp add: cli_configure_def)
qed

end
