(* ===== verification/Devmgr.thy ===== *)
theory Devmgr
  imports Cliopt Sockpush_Calls
begin

text \<open>
  The device manager command of \<open>main/cmd_devmgr.c\<close>: it sends one command through \<open>sockpush\<close>,
  waits for the acknowledgement with the session id and then for the \<open>rxstat\<close> message of that
  session, and repeats the command on a time-out or a corrupt frame. Every line received is
  printed.

  cJSON is not part of the repository: its functions are the record \<open>cjson\<close>, an argument of the
  definitions, and \<open>cjson_ok\<close> states the documented behaviour that is relied upon. Pointers to
  JSON items are \<open>'j option\<close>, with \<open>None\<close> for NULL.
\<close>

section \<open>Interfaces\<close>

record 'j cjson =
  cJSON_Parse :: "byte list \<Rightarrow> 'j option"
  cJSON_GetItem :: "'j option \<Rightarrow> byte list \<Rightarrow> 'j option"  \<comment> \<open>\<open>cJSON_GetObjectItemCaseSensitive\<close>\<close>
  cJSON_IsString :: "'j option \<Rightarrow> bool"
  cJSON_IsNumber :: "'j option \<Rightarrow> bool"
  cJSON_IsObject :: "'j option \<Rightarrow> bool"
  valuestring :: "'j \<Rightarrow> byte list option"
  valueint :: "'j \<Rightarrow> int"

definition cjson_ok :: "'j cjson \<Rightarrow> bool" where
  "cjson_ok api \<longleftrightarrow>
     \<not> cJSON_IsString api None \<and> \<not> cJSON_IsNumber api None \<and> \<not> cJSON_IsObject api None
     \<and> (\<forall>j. \<not> cJSON_IsString api (Some j)
            \<or> (\<exists>s. valuestring api j = Some s \<and> NUL \<notin> set s \<and> length s < 2 ^ 31))
     \<and> (\<forall>j. int_ok (valueint api j))"

text \<open>The handle of \<open>include/dterm.h\<close>; a context pointer is its being non-NULL.\<close>

record dterm_fd_t =
  fd_in :: int
  fd_out :: int
  fd_squelch :: int

record dterm_handle_t =
  fd :: dterm_fd_t
  pctx :: bool
  tctx :: bool
  use_socket :: bool
  devmgr :: sp_handle_t

record world = sp_world +
  out :: "byte list"      \<comment> \<open>what has been written to the output descriptor\<close>
  err :: "byte list"      \<comment> \<open>what has been written to standard error\<close>
  n_clock :: nat

record env =
  os_sp :: sp_env
  os_clock :: "nat \<Rightarrow> timespec option"   \<comment> \<open>\<open>CLOCK_MONOTONIC\<close>, \<open>None\<close> when the call fails\<close>
  os_stack :: "byte list"                 \<comment> \<open>what the automatic buffer \<open>dout\<close> holds at first\<close>
  opts :: "cliopt_t option"               \<comment> \<open>the client options, read-only here\<close>

definition emit :: "byte list \<Rightarrow> world \<Rightarrow> world" where
  "emit s w = w\<lparr>out := out w @ s\<rparr>"

definition emit_err :: "byte list \<Rightarrow> world \<Rightarrow> world" where
  "emit_err s w = w\<lparr>err := err w @ s\<rparr>"

definition E_NRM :: string where "E_NRM = ESC # ''[0m''"
definition E_RED :: string where "E_RED = ESC # ''[31m''"
definition E_GRN :: string where "E_GRN = ESC # ''[32m''"
definition E_MAG :: string where "E_MAG = ESC # ''[35m''"

definition ERR_PRINTF :: "cliopt_t option \<Rightarrow> byte list \<Rightarrow> world \<Rightarrow> world res" where
  "ERR_PRINTF opt s w =
     rbind (cliopt_isverbose opt) (\<lambda>v.
     Inr (if v then emit (E_RED @ ''ERR: '' @ E_NRM @ s) w else w))"

text \<open>An \<open>int\<close> or \<open>long\<close> converted to \<open>size_t\<close>.\<close>

definition to_size :: "int \<Rightarrow> nat" where
  "to_size i = nat (i mod 2 ^ 64)"

section \<open>Reading the JSON messages\<close>

definition sub_json_gettype :: "'j cjson \<Rightarrow> 'j option \<Rightarrow> byte list \<Rightarrow> 'j option res" where
  "sub_json_gettype api jtop typename =
     (let jtop = cJSON_GetItem api jtop ''type'' in
      if cJSON_IsString api jtop then
        rbind (deref jtop) (\<lambda>t.
        rbind (deref (valuestring api t)) (\<lambda>s.
        Inr (if s = typename then jtop else None)))
      else Inr None)"

text \<open>\<open>sid\<close> is the variable the pointer argument refers to, \<open>None\<close> for a NULL pointer.\<close>

definition sub_json_getack :: "'j cjson \<Rightarrow> 'j option \<Rightarrow> u32 option \<Rightarrow> (int \<times> u32 option) res" where
  "sub_json_getack api jtop sid =
     (let jtop = cJSON_GetItem api jtop ''data'' in
      if cJSON_IsObject api jtop then
        (let obj = cJSON_GetItem api jtop ''err'' in
         if cJSON_IsNumber api obj then
           rbind (deref obj) (\<lambda>e.
           let errval = valueint api e in
           if sid \<noteq> None then
             (let obj = cJSON_GetItem api jtop ''sid'' in
              rbind (if cJSON_IsNumber api obj
                     then rbind (deref obj) (\<lambda>n. Inr (word_of_int (valueint api n)))
                     else Inr 0) (\<lambda>sidval.
              Inr (errval, Some sidval)))
           else Inr (errval, sid))
         else Inr (-1, sid))
      else Inr (-1, sid))"

definition sub_json_getframe ::
    "'j cjson \<Rightarrow> 'j option \<Rightarrow> 'j option option \<Rightarrow> int option
     \<Rightarrow> (int \<times> 'j option option \<times> int option) res" where
  "sub_json_getframe api jtop frame qualtest =
     (let jtop = cJSON_GetItem api jtop ''data'' in
      if cJSON_IsObject api jtop then
        (let obj = cJSON_GetItem api jtop ''sid'' in
         if cJSON_IsNumber api obj then
           rbind (deref obj) (\<lambda>n.
           let sid = valueint api n in
           rbind (if qualtest \<noteq> None then
                    (let obj = cJSON_GetItem api jtop ''qual'' in
                     if cJSON_IsNumber api obj
                     then rbind (deref obj) (\<lambda>q. Inr (Some (valueint api q)))
                     else Inr qualtest)
                  else Inr qualtest) (\<lambda>qualtest.
           Inr (sid, if frame \<noteq> None then Some (cJSON_GetItem api jtop ''frame'') else None,
                qualtest)))
         else Inr (-1, frame, qualtest))
      else Inr (-1, frame, qualtest))"

section \<open>One message\<close>

text \<open>The local variables that live across iterations of the receive loop.\<close>

record dm =
  dm_state :: int
  dm_sid :: u32
  dm_timeout :: int           \<comment> \<open>\<open>global_timeout\<close>\<close>
  dm_dst :: "byte list"       \<comment> \<open>the block at \<open>dst\<close>\<close>
  dm_dout :: "byte list"      \<comment> \<open>the line buffer \<open>dout[1024]\<close>\<close>

text \<open>
  The \<open>switch (state)\<close> on a parsed message: the return code so far, whether control goes to the
  termination label at once, and the variables.
\<close>

definition devmgr_ack :: "'j cjson \<Rightarrow> 'j \<Rightarrow> dm \<Rightarrow> (int \<times> bool \<times> dm) res" where
  "devmgr_ack api resp m =
     rbind (sub_json_gettype api (Some resp) ''ack'') (\<lambda>t.
     if t \<noteq> None then
       rbind (sub_json_getack api (Some resp) (Some (dm_sid m))) (\<lambda>(cmd_err, sid).
       let m = m\<lparr>dm_sid := the sid\<rparr> in
       if cmd_err \<noteq> 0 then
         rbind (ck_int \<bar>cmd_err\<bar>) (\<lambda>a.
         rbind (ck_int (- 256 - a)) (\<lambda>rc.
         Inr (rc, True, m)))
       else if dm_sid m = 0 then Inr (0, True, m)
       else Inr (-1, False, m\<lparr>dm_state := 1\<rparr>))
     else Inr (-1, False, m))"

definition devmgr_copy :: "byte list \<Rightarrow> nat \<Rightarrow> dm \<Rightarrow> (int \<times> dm) res" where
  "devmgr_copy text dstmax m =
     (let rc = to_int (int (length text)) in
      rbind (ck_int (to_int (int dstmax) - 1)) (\<lambda>lim.
      let rc = (if rc > lim then lim else rc) in
      rbind (ck_int (rc + 1)) (\<lambda>n.
      rbind (memcpy (dm_dst m) (text @ [NUL]) (to_size n)) (\<lambda>dst.
      Inr (rc, m\<lparr>dm_dst := dst\<rparr>)))))"

definition devmgr_rxstat :: "'j cjson \<Rightarrow> nat \<Rightarrow> 'j \<Rightarrow> dm \<Rightarrow> (int \<times> bool \<times> dm) res" where
  "devmgr_rxstat api dstmax resp m =
     rbind (sub_json_gettype api (Some resp) ''rxstat'') (\<lambda>t.
     if t \<noteq> None then
       rbind (sub_json_getframe api (Some resp) (Some None) (Some 0)) (\<lambda>(sid, frame, qualtest).
       if dm_sid m = word_of_int sid then
         (let m = m\<lparr>dm_state := 2\<rparr>; rc = -4; frame = the frame in
          if qualtest = Some 0 \<and> frame \<noteq> None then
            (if cJSON_IsString api frame \<and> valuestring api (the frame) \<noteq> None then
               rbind (devmgr_copy (the (valuestring api (the frame))) dstmax m) (\<lambda>(rc, m).
               Inr (rc, False, m))
             else Inr (rc, False, m))
          else Inr (rc, False, m))
       else Inr (-1, False, m))
     else Inr (-1, False, m))"

definition devmgr_message :: "'j cjson \<Rightarrow> nat \<Rightarrow> 'j \<Rightarrow> dm \<Rightarrow> (int \<times> bool \<times> dm) res" where
  "devmgr_message api dstmax resp m =
     (if dm_state m = 0 then devmgr_ack api resp m
      else if dm_state m = 1 then devmgr_rxstat api dstmax resp m
      else Inr (-1, False, m))"

section \<open>The exchange\<close>

datatype dm_next = Finish int | Again | Resend

text \<open>Lines 228 to 241: the command goes out, and the protocol starts over.\<close>

definition devmgr_send ::
    "env \<Rightarrow> sp_handle_t \<Rightarrow> byte list \<Rightarrow> int \<Rightarrow> dm \<Rightarrow> world \<Rightarrow> (dm_next \<times> dm \<times> world) res" where
  "devmgr_send E handle src inbytes m w =
     rbind (sp_sendcmd (os_sp E) handle (Some src) (to_size inbytes) w) (\<lambda>(rc, w).
     if rc < 0 then
       Inr (Finish (-6), m, emit_err (''sp_sendcmd() returned '' @ dec_int rc @ [LF]) w)
     else Inr (Again, m\<lparr>dm_state := 0, dm_sid := -1\<rparr>, w))"

text \<open>What is done with the outcome of a read: the part of the loop body before the time check.\<close>

definition devmgr_received ::
    "env \<Rightarrow> 'j cjson \<Rightarrow> int \<Rightarrow> nat \<Rightarrow> int \<Rightarrow> dm \<Rightarrow> world \<Rightarrow> (int \<times> bool \<times> dm \<times> world) res" where
  "devmgr_received E api read_timeout dstmax rc m w =
     (if rc \<le> 0 then
        rbind (ERR_PRINTF (opts E) (''sp_read() timeout in cmd_devmgr(): '' @ dec_int read_timeout
                 @ '' ms'' @ [LF]) w) (\<lambda>w.
        Inr (-4, False, m, w))
      else
        rbind (cliopt_isverbose (opts E)) (\<lambda>v.
        let w = (if v then emit (E_GRN @ ''['' @ dec_nat (nat rc) @ '']>> '' @ E_NRM) w else w);
            w = emit (takeWhile (\<lambda>c. c \<noteq> NUL) (take (nat rc) (dm_dout m)) @ [LF]) w
        in rbind (cstring (dm_dout m)) (\<lambda>text.
           case cJSON_Parse api text of
             None \<Rightarrow> Inr (-1, False, m, w)
           | Some resp \<Rightarrow>
               rbind (devmgr_message api dstmax resp m) (\<lambda>(rc, term, m).
               Inr (rc, term, m, w)))))"

definition devmgr_iter ::
    "env \<Rightarrow> 'j cjson \<Rightarrow> nat option \<Rightarrow> int \<Rightarrow> timespec \<Rightarrow> nat \<Rightarrow> dm \<Rightarrow> world
     \<Rightarrow> (dm_next \<times> dm \<times> world) res" where
  "devmgr_iter E api reader read_timeout ref dstmax m w =
     rbind (sp_read (os_sp E) reader (Some (dm_dout m)) 1024 (to_size read_timeout) w) (\<lambda>(rc, dout, w).
     rbind (deref dout) (\<lambda>dout.
     let m = m\<lparr>dm_dout := dout\<rparr> in
     rbind (devmgr_received E api read_timeout dstmax rc m w) (\<lambda>(rc, term, m, w).
     if term then Inr (Finish rc, m, w)
     else if rc \<ge> 0 then Inr (Finish rc, m, w)
     else
       (case os_clock E (n_clock w) of
          None \<Rightarrow> Inr (Finish (-5), m, w\<lparr>n_clock := Suc (n_clock w)\<rparr>)
        | Some test \<Rightarrow>
            (let w = w\<lparr>n_clock := Suc (n_clock w)\<rparr>;
                 test = diff_timespec ref test;
                 m = m\<lparr>dm_timeout := to_int (dm_timeout m - elapsed_ms test)\<rparr>
             in if dm_timeout m \<le> 0 then Inr (Finish rc, m, w)
                else if rc = -4 then Inr (Resend, m, w)
                else Inr (Again, m, w))))))"

text \<open>One round: the command, when it is to be (re)sent, and one pass of the receive loop.\<close>

definition devmgr_round ::
    "env \<Rightarrow> 'j cjson \<Rightarrow> sp_handle_t \<Rightarrow> nat option \<Rightarrow> int \<Rightarrow> timespec \<Rightarrow> byte list \<Rightarrow> int \<Rightarrow> nat
     \<Rightarrow> bool \<Rightarrow> dm \<Rightarrow> world \<Rightarrow> (dm_next \<times> dm \<times> world) res" where
  "devmgr_round E api handle reader read_timeout ref src inbytes dstmax send m w =
     rbind (if send then devmgr_send E handle src inbytes m w else Inr (Again, m, w)) (\<lambda>(n, m, w).
     case n of
       Finish rc \<Rightarrow> Inr (Finish rc, m, w)
     | _ \<Rightarrow> devmgr_iter E api reader read_timeout ref dstmax m w)"

text \<open>The loop with its \<open>goto\<close> back to the sending; \<open>None\<close> is an exchange that does not end.\<close>

partial_function (option) devmgr_loop ::
    "env \<Rightarrow> 'j cjson \<Rightarrow> sp_handle_t \<Rightarrow> nat option \<Rightarrow> int \<Rightarrow> timespec \<Rightarrow> byte list \<Rightarrow> int \<Rightarrow> nat
     \<Rightarrow> bool \<Rightarrow> dm \<Rightarrow> world \<Rightarrow> (int \<times> dm \<times> world) res option" where
  "devmgr_loop E api handle reader read_timeout ref src inbytes dstmax send m w =
     (case devmgr_round E api handle reader read_timeout ref src inbytes dstmax send m w of
        Inl e \<Rightarrow> Some (Inl e)
      | Inr (n, m, w) \<Rightarrow>
          (case n of
             Finish rc \<Rightarrow> Some (Inr (rc, m, w))
           | Again \<Rightarrow> devmgr_loop E api handle reader read_timeout ref src inbytes dstmax False m w
           | Resend \<Rightarrow> devmgr_loop E api handle reader read_timeout ref src inbytes dstmax True m w))"

definition devmgr_budget :: "cliopt_t option \<Rightarrow> (int \<times> int) res" where
  "devmgr_budget opt =
     rbind (cliopt_gettimeout opt) (\<lambda>read_timeout.
     rbind (cliopt_gettries opt) (\<lambda>tries.
     rbind (ck_int (read_timeout * tries)) (\<lambda>p.
     rbind (ck_int (p + c_quot read_timeout 2)) (\<lambda>global_timeout.
     Inr (read_timeout, global_timeout)))))"

text \<open>The termination label: the reader is destroyed, whatever the return code.\<close>

definition devmgr_term ::
    "env \<Rightarrow> nat option \<Rightarrow> int \<times> dm \<times> world \<Rightarrow> (int \<times> byte list \<times> world) res" where
  "devmgr_term E reader r =
     (let (rc, m, w) = r in
      rbind (sp_reader_destroy (os_sp E) reader w) (\<lambda>w. Inr (rc, dm_dst m, w)))"

definition sub_devmgr_socket ::
    "env \<Rightarrow> 'j cjson \<Rightarrow> dterm_handle_t \<Rightarrow> byte list \<Rightarrow> int \<Rightarrow> byte list \<Rightarrow> nat \<Rightarrow> world
     \<Rightarrow> (int \<times> byte list \<times> world) res option" where
  "sub_devmgr_socket E api dth dst inbytes src dstmax w =
     (case devmgr_budget (opts E) of Inl e \<Rightarrow> Some (Inl e)
      | Inr (read_timeout, global_timeout) \<Rightarrow>
        (case sp_reader_create (os_sp E) (devmgr dth) w of Inl e \<Rightarrow> Some (Inl e)
         | Inr (reader, w) \<Rightarrow>
           if reader = None then Some (Inr (-3, dst, w))
           else
             (let m = \<lparr>dm_state = 0, dm_sid = -1, dm_timeout = global_timeout, dm_dst = dst,
                       dm_dout = os_stack E\<rparr>;
                  w' = w\<lparr>n_clock := Suc (n_clock w)\<rparr>
              in case os_clock E (n_clock w) of
                   None \<Rightarrow> Some (devmgr_term E reader (-5, m, w'))
                 | Some ref \<Rightarrow>
                     Option.bind (devmgr_loop E api (devmgr dth) reader read_timeout ref src
                                    inbytes dstmax True m w')
                       (\<lambda>r. Some (rbind r (devmgr_term E reader))))))"

definition cmd_devmgr ::
    "env \<Rightarrow> 'j cjson \<Rightarrow> dterm_handle_t option \<Rightarrow> byte list \<Rightarrow> int \<Rightarrow> byte list \<Rightarrow> nat \<Rightarrow> world
     \<Rightarrow> (int \<times> byte list \<times> world) res option" where
  "cmd_devmgr E api dth dst inbytes src dstmax w =
     (case dth of None \<Rightarrow> Some (Inr (-1, dst, w))
      | Some d \<Rightarrow>
        if devmgr d = SP_NULL then Some (Inr (-2, dst, w))
        else if use_socket d then sub_devmgr_socket E api d dst inbytes src dstmax w
        else Some (Inr (-3, dst, w)))"

end
