(* ===== verification/Dterm.thy ===== *)
theory Dterm
  imports Devmgr
begin

text \<open>
  The command stream of \<open>main/dterm.c\<close>: a block of text is cut into lines, and every line is a
  command for the device manager, either as it is or as the \<open>data\<close> of a JSON object. The stream
  and the protocol buffer are blocks, and pointers into them are offsets; \<open>isspace\<close> is the one of
  the C locale, and a byte from 128 on is in its domain only where the platform has it so. What the talloc and argtable libraries do with their contexts is outside the model
  except for the contexts the handle owns.
\<close>

section \<open>Strings\<close>

definition isspace :: "byte \<Rightarrow> bool" where
  "isspace c \<longleftrightarrow> c = CHR '' '' \<or> 9 \<le> (of_char c :: nat) \<and> (of_char c :: nat) \<le> 13"

primrec sub_str_sanitize :: "nat \<Rightarrow> byte list \<Rightarrow> nat \<Rightarrow> byte list res" where
  "sub_str_sanitize 0 m str = rbind (ld m str) (\<lambda>_. Inr m)"
| "sub_str_sanitize (Suc left) m str =
     rbind (ld m str) (\<lambda>c.
     if c \<noteq> NUL then
       rbind (if c = CR then st m str LF else Inr m) (\<lambda>m.
       sub_str_sanitize left m (Suc str))
     else Inr m)"

text \<open>The loop of \<open>sub_str_mark\<close>: the offset at which it stops.\<close>

primrec mark_loop :: "nat \<Rightarrow> byte list \<Rightarrow> nat \<Rightarrow> nat res" where
  "mark_loop 0 m str = rbind (ld m str) (\<lambda>_. Inr str)"
| "mark_loop (Suc left) m str =
     rbind (ld m str) (\<lambda>c.
     if c \<noteq> NUL \<and> c \<noteq> LF then mark_loop left m (Suc str) else Inr str)"

definition sub_str_mark :: "byte list \<Rightarrow> nat \<Rightarrow> nat \<Rightarrow> (nat \<times> byte list) res" where
  "sub_str_mark m str left =
     rbind (mark_loop left m str) (\<lambda>s.
     rbind (ld m s) (\<lambda>c.
     rbind (if c = LF then st m s NUL else Inr m) (\<lambda>m.
     Inr (s - str, m))))"

definition hex_convert :: "byte list" where
  "hex_convert = ''0123456789ABCDEF''"

definition sub_hexwrite :: "u8 \<Rightarrow> world \<Rightarrow> (int \<times> world) res" where
  "sub_hexwrite b w =
     rbind (ld hex_convert (unat (drop_bit 4 b))) (\<lambda>h.
     rbind (ld hex_convert (unat (and b 0x0F))) (\<lambda>l.
     Inr (2, emit [h, l] w)))"

definition sub_hexswrite :: "byte list \<Rightarrow> nat \<Rightarrow> u8 \<Rightarrow> (int \<times> byte list) res" where
  "sub_hexswrite m dst b =
     rbind (ld hex_convert (unat (drop_bit 4 b))) (\<lambda>h.
     rbind (st m dst h) (\<lambda>m.
     rbind (ld hex_convert (unat (and b 0x0F))) (\<lambda>l.
     rbind (st m (Suc dst) l) (\<lambda>m.
     Inr (2, m)))))"

primrec sub_hexstream :: "nat \<Rightarrow> u8 list \<Rightarrow> int \<Rightarrow> world \<Rightarrow> (int \<times> world) res" where
  "sub_hexstream 0 src bytesout w = Inr (bytesout, w)"
| "sub_hexstream (Suc src_bytes) src bytesout w =
     (case src of [] \<Rightarrow> Inl Out_of_bounds
      | b # src \<Rightarrow>
          rbind (sub_hexwrite b w) (\<lambda>(n, w).
          rbind (ck_int (bytesout + n)) (\<lambda>bytesout.
          sub_hexstream src_bytes src bytesout w)))"

section \<open>The handle\<close>

text \<open>The talloc contexts the handle owns, and the ones that are alive.\<close>

datatype ctx = Ctx_p | Ctx_t

definition talloc_free :: "bool \<Rightarrow> ctx \<Rightarrow> ctx set \<Rightarrow> ctx set res" where
  "talloc_free nonnull c live =
     (if \<not> nonnull then Inr live else if c \<in> live then Inr (live - {c}) else Inl Use_after_free)"

definition dterm_init ::
    "bool \<Rightarrow> dterm_handle_t option \<Rightarrow> int \<Rightarrow> int \<Rightarrow> bool \<Rightarrow> sp_handle_t \<Rightarrow> ctx set
     \<Rightarrow> (int \<times> dterm_handle_t option \<times> ctx set) res" where
  "dterm_init talloc_ok dth fd_in' fd_out' use_socket' devmgr_handle live =
     (case dth of None \<Rightarrow> Inr (-1, None, live)
      | Some d \<Rightarrow>
        if devmgr_handle = SP_NULL then Inr (-1, Some d, live)
        else
          (let live = (if talloc_ok then insert Ctx_p live else live);
               d = d\<lparr>pctx := talloc_ok, tctx := False\<rparr>
           in if \<not> pctx d then
                rbind (talloc_free (tctx d) Ctx_t live) (\<lambda>live.
                rbind (talloc_free (pctx d) Ctx_p live) (\<lambda>live.
                Inr (-2, Some d, live)))
              else Inr (0, Some (d\<lparr>use_socket := use_socket', devmgr := devmgr_handle,
                          fd := (fd d)\<lparr>fd_in := fd_in', fd_out := fd_out'\<rparr>\<rparr>), live)))"

definition dterm_deinit :: "dterm_handle_t \<Rightarrow> ctx set \<Rightarrow> ctx set res" where
  "dterm_deinit d live =
     rbind (talloc_free (tctx d) Ctx_t live) (\<lambda>live. talloc_free (pctx d) Ctx_p live)"

section \<open>One line\<close>

record term_env =
  t_env :: env
  t_buf :: "byte list"    \<comment> \<open>what the automatic buffer \<open>protocol_buf\<close> holds at first\<close>
  t_pool :: bool          \<comment> \<open>whether talloc provides the memory pool of a line\<close>
  t_ctype :: "byte \<Rightarrow> bool" \<comment> \<open>bytes from 128 on that \<open>isspace\<close> accepts as a plain \<open>char\<close>\<close>

definition VCLIENT_PRINTF :: "cliopt_t option \<Rightarrow> byte list \<Rightarrow> world \<Rightarrow> world res" where
  "VCLIENT_PRINTF opt s w =
     rbind (cliopt_isverbose opt) (\<lambda>v.
     Inr (if v then emit (E_MAG @ ''CLIENT: '' @ E_NRM @ s) w else w))"

text \<open>The conversion \<open>%.*s\<close>, and \<open>snprintf\<close> to the start of a block.\<close>

definition upto_nul :: "int \<Rightarrow> byte list \<Rightarrow> byte list" where
  "upto_nul n s = takeWhile (\<lambda>c. c \<noteq> NUL) (take (nat n) s)"

definition snprintf :: "byte list \<Rightarrow> nat \<Rightarrow> byte list \<Rightarrow> (int \<times> byte list) res" where
  "snprintf m n s =
     rbind (if n = 0 then Inr m
            else memcpy m (take (n - 1) s @ [NUL]) (Suc (min (n - 1) (length s)))) (\<lambda>m.
     Inr (int (length s), m))"

text \<open>\<open>stpncpy\<close> to an offset: the copy, the padding with NUL, and the offset after the text.\<close>

definition stpncpy :: "byte list \<Rightarrow> nat \<Rightarrow> byte list \<Rightarrow> nat \<Rightarrow> (nat \<times> byte list) res" where
  "stpncpy m dst s n =
     (if length m < dst + n then Inl Out_of_bounds
      else Inr (dst + min (length s) n,
                take dst m @ take n s @ replicate (n - length s) NUL @ drop (dst + n) m))"

definition OTTERCAT_PARAM_NAME :: "byte list" where
  "OTTERCAT_PARAM_NAME = ''ottercat''"

definition error_reply :: "int \<Rightarrow> byte list" where
  "error_reply e = ''{\"cmd\":\"'' @ OTTERCAT_PARAM_NAME @ ''\", \"err\":'' @ dec_int e
     @ '', \"desc\":\"execution error\"}'' @ [LF]"

text \<open>Lines 217 to 222, for a JSON object with its strings \<open>type\<close> and \<open>data\<close>: the new \<open>loadbuf\<close>, the
  size of the header, and the buffer.\<close>

definition line_header ::
    "term_env \<Rightarrow> 'j cjson \<Rightarrow> 'j option \<Rightarrow> 'j option \<Rightarrow> byte list \<Rightarrow> int \<Rightarrow> world
     \<Rightarrow> (byte list \<times> int \<times> byte list \<times> world) res" where
  "line_header T api typeobj dataobj loadbuf linelen w =
     rbind (VCLIENT_PRINTF (opts (t_env T)) (''JSON Request ('' @ dec_int linelen @ '' bytes): ''
              @ upto_nul linelen loadbuf @ [LF]) w) (\<lambda>w.
     rbind (deref dataobj) (\<lambda>d.
     rbind (deref (valuestring api d)) (\<lambda>data.
     rbind (deref typeobj) (\<lambda>t.
     rbind (deref (valuestring api t)) (\<lambda>ty.
     rbind (snprintf (t_buf T) (1024 - 1) (''{\"type\":\"'' @ ty @ ''\", \"data\":'')) (\<lambda>(hdr_sz, buf).
     Inr (data @ [NUL], hdr_sz, buf, w)))))))"

text \<open>The bind of computations that may also run forever.\<close>

definition obind :: "'a res option \<Rightarrow> ('a \<Rightarrow> 'b res option) \<Rightarrow> 'b res option" where
  "obind x f = Option.bind x (\<lambda>r. case r of Inl e \<Rightarrow> Some (Inl e) | Inr v \<Rightarrow> f v)"

text \<open>Lines 229 to 259: the command, with the cursor at \<open>off\<close> in the buffer.\<close>

definition line_command ::
    "term_env \<Rightarrow> 'j cjson \<Rightarrow> dterm_handle_t \<Rightarrow> int option option \<Rightarrow> bool \<Rightarrow> int \<Rightarrow> byte list
     \<Rightarrow> byte list \<Rightarrow> int \<Rightarrow> world \<Rightarrow> (int \<times> int option option \<times> world) res option" where
  "line_command T api dth cmdrc isobj hdr_sz buf loadbuf linelen w =
     (let off = nat hdr_sz; bufmax = 1024 - hdr_sz in
      obind (Some (st buf off NUL)) (\<lambda>buf.
      obind (cmd_devmgr (t_env T) api (Some dth) (drop off buf) linelen loadbuf (to_size bufmax) w)
        (\<lambda>(bytesout, dst, w).
      let cmdrc = map_option (\<lambda>_. Some bytesout) cmdrc;
          buf = take off buf @ dst
      in Some
        (if bytesout < 0 then
           rbind (snprintf buf (1024 - 1) (error_reply bytesout)) (\<lambda>(bytesout, buf).
           if length buf < nat bytesout then Inl Out_of_bounds
           else Inr (bytesout, cmdrc, emit (take (nat bytesout) buf) w))
         else if bytesout > 0 \<and> isobj then
           rbind (VCLIENT_PRINTF (opts (t_env T)) (''JSON Response ('' @ dec_int bytesout @ '' bytes): ''
                    @ upto_nul bytesout (drop off buf) @ [LF]) w) (\<lambda>w.
           rbind (stpncpy buf (off + nat bytesout) (''}'' @ [LF]) (to_size (bufmax - bytesout)))
             (\<lambda>(cursor, buf).
           Inr (to_int (int cursor), cmdrc, w)))
         else Inr (bytesout, cmdrc, w)))))"

definition sub_proc_lineinput ::
    "term_env \<Rightarrow> 'j cjson \<Rightarrow> dterm_handle_t \<Rightarrow> int option option \<Rightarrow> byte list \<Rightarrow> int \<Rightarrow> world
     \<Rightarrow> (int \<times> int option option \<times> world) res option" where
  "sub_proc_lineinput T api dth cmdrc loadbuf linelen w =
     obind (Some (cstring loadbuf)) (\<lambda>text.
     let cmdobj = cJSON_Parse api text in
     if cJSON_IsObject api cmdobj then
       (let typeobj = cJSON_GetItem api cmdobj ''type'';
            dataobj = cJSON_GetItem api cmdobj ''data''
        in if cJSON_IsString api typeobj \<and> cJSON_IsString api dataobj then
             obind (Some (line_header T api typeobj dataobj loadbuf linelen w))
               (\<lambda>(loadbuf, hdr_sz, buf, w).
             line_command T api dth cmdrc True hdr_sz buf loadbuf linelen w)
           else Some (Inr (0, cmdrc, w)))
     else line_command T api dth cmdrc False 0 (t_buf T) loadbuf linelen w)"

section \<open>The stream\<close>

text \<open>
  A plain \<open>char\<close> is passed to \<open>isspace\<close>, whose argument must have the value of an \<open>unsigned char\<close>
  or be \<open>EOF\<close>: the behaviour on a byte from 128 on, which is negative where \<open>char\<close> is signed, is
  undefined unless the library allows it.
\<close>

definition ctype_ok :: "term_env \<Rightarrow> byte \<Rightarrow> bool" where
  "ctype_ok T c \<longleftrightarrow> (of_char c :: nat) < 128 \<or> t_ctype T c"

primrec burn_space :: "term_env \<Rightarrow> byte list \<Rightarrow> nat res" where
  "burn_space T [] = Inl Out_of_bounds"
| "burn_space T (c # m) =
     (if \<not> ctype_ok T c then Inl Bad_argument
      else if isspace c then rbind (burn_space T m) (\<lambda>n. Inr (Suc n)) else Inr 0)"

text \<open>
  One pass of the loop: \<open>None\<close> when the command failed and the loop is left, else the new size
  and cursor. The variable \<open>cmdrc\<close> is local to the pass and has no value before the call.
\<close>

definition cmdstream_pass ::
    "term_env \<Rightarrow> 'j cjson \<Rightarrow> dterm_handle_t \<Rightarrow> byte list \<Rightarrow> int \<Rightarrow> nat \<Rightarrow> world
     \<Rightarrow> ((int \<times> nat) option \<times> dterm_handle_t \<times> byte list \<times> world) res option" where
  "cmdstream_pass T api dth stream stream_sz streamcursor w =
     (let o' = opts (t_env T) in
      obind (Some (burn_space T (drop streamcursor stream))) (\<lambda>k.
      let streamcursor = streamcursor + k; stream_sz = stream_sz - int k in
      obind (Some (sub_str_mark stream streamcursor (to_size stream_sz))) (\<lambda>(len, stream).
      let linelen = to_int (int len) in
      obind (Some (cliopt_getpoolsize o')) (\<lambda>poolsize.
      let dth = dth\<lparr>tctx := t_pool T\<rparr> in
      obind (Some (cliopt_isverbose o')) (\<lambda>v.
      obind (Some (cstring (drop streamcursor stream))) (\<lambda>line.
      let w = (if v then emit (E_MAG @ ''['' @ dec_nat (nat (stream_sz mod 2 ^ 32)) @ '']<< '' @ E_NRM
                              @ line @ [LF]) w else w) in
      obind (sub_proc_lineinput T api dth (Some None) (drop streamcursor stream) linelen w)
        (\<lambda>(bytesout, cmdrc, w).
      let dth = dth\<lparr>tctx := False\<rparr> in
      case cmdrc of
        Some (Some rc) \<Rightarrow>
          Some (Inr
            (if rc < 0 then
               (None, dth, stream, emit (E_RED @ ''ERR: '' @ E_NRM @ ''Command Returned '' @ dec_int rc @ [LF]) w)
             else (Some (stream_sz - (linelen + 1), nat (int streamcursor + linelen + 1)), dth, stream, w)))
      | _ \<Rightarrow> Some (Inl Uninit_read))))))))"

partial_function (option) cmdstream_loop ::
    "term_env \<Rightarrow> 'j cjson \<Rightarrow> dterm_handle_t \<Rightarrow> byte list \<Rightarrow> int \<Rightarrow> nat \<Rightarrow> world
     \<Rightarrow> (int \<times> dterm_handle_t \<times> byte list \<times> world) res option" where
  "cmdstream_loop T api dth stream stream_sz streamcursor w =
     (if stream_sz > 0 then
        Option.bind (cmdstream_pass T api dth stream stream_sz streamcursor w) (\<lambda>r.
        case r of
          Inl e \<Rightarrow> Some (Inl e)
        | Inr (next, dth, stream, w) \<Rightarrow>
            (case next of
               None \<Rightarrow> Some (Inr (-4, dth, stream, w))
             | Some (stream_sz, streamcursor) \<Rightarrow> cmdstream_loop T api dth stream stream_sz streamcursor w))
      else Some (Inr (0, dth, stream, w)))"

definition dterm_cmdstream ::
    "term_env \<Rightarrow> 'j cjson \<Rightarrow> dterm_handle_t \<Rightarrow> byte list option \<Rightarrow> world
     \<Rightarrow> (int \<times> dterm_handle_t \<times> byte list option \<times> world) res option" where
  "dterm_cmdstream T api dth stream w =
     (case stream of None \<Rightarrow> Some (Inr (-2, dth, None, w))
      | Some m \<Rightarrow>
          obind (Some (cstrlen m)) (\<lambda>n.
          let stream_sz = to_int (int n) in
          obind (Some (sub_str_sanitize (to_size stream_sz) m 0)) (\<lambda>m.
          obind (cmdstream_loop T api dth m stream_sz 0 w) (\<lambda>(rc, dth, m, w).
          Some (Inr (rc, dth, Some m, w))))))"

end
