(* ===== verification/Dterm_Memory.thy ===== *)
theory Dterm_Memory
  imports Dterm
begin

text \<open>
  The memory a command line uses: the allocator hooks of \<open>main/dterm.c\<close> (\<open>iso_malloc\<close>, \<open>iso_free\<close>,
  and the functions that install and remove them), the memory pool of a line, the context and the
  reader of an exchange, and the JSON values that are parsed on the way. Blocks are numbered; a
  block is of the C library or of talloc, where it may have a parent with which it is released.
  What cJSON does in a call is a parameter: the number of blocks a text takes, 0 when the text is
  no JSON or the memory does not suffice. The other theories model what is computed with these
  values; here only their lifetime counts.
\<close>

section \<open>Blocks\<close>

datatype origin = Libc | Talloc "nat option"

datatype allocators = Std_alloc | Iso_alloc

record heap =
  blocks :: "nat \<rightharpoonup> origin"
  fresh :: nat
  iso_ctx :: "nat option"
  json_hooks :: allocators
  arg_hooks :: allocators

definition new_block :: "origin \<Rightarrow> heap \<Rightarrow> nat \<times> heap" where
  "new_block k h = (fresh h, h\<lparr>blocks := (blocks h)(fresh h \<mapsto> k), fresh := Suc (fresh h)\<rparr>)"

text \<open>\<open>talloc_size\<close> and \<open>talloc_new\<close>, which may fail; a parent that is not alive is an error.\<close>

definition talloc_size :: "bool \<Rightarrow> nat option \<Rightarrow> heap \<Rightarrow> (nat option \<times> heap) res" where
  "talloc_size ok owner h =
     (if \<exists>p \<in> set_option owner. blocks h p = None \<or> blocks h p = Some Libc then Inl Use_after_free
      else if ok then (let (a, h) = new_block (Talloc owner) h in Inr (Some a, h))
      else Inr (None, h))"

text \<open>Whether the block \<open>b\<close> is \<open>a\<close> or below it; parents have smaller numbers, so \<open>fresh\<close> steps are
  enough.\<close>

primrec within :: "nat \<Rightarrow> (nat \<rightharpoonup> origin) \<Rightarrow> nat \<Rightarrow> nat \<Rightarrow> bool" where
  "within 0 m a b = False"
| "within (Suc n) m a b =
     (a = b \<or> (case m b of Some (Talloc (Some p)) \<Rightarrow> within n m a p | _ \<Rightarrow> False))"

definition talloc_release :: "nat option \<Rightarrow> heap \<Rightarrow> heap res" where
  "talloc_release ptr h =
     (case ptr of None \<Rightarrow> Inr h
      | Some a \<Rightarrow>
          (case blocks h a of
             Some (Talloc _) \<Rightarrow>
               Inr (h\<lparr>blocks := (\<lambda>b. if within (fresh h) (blocks h) a b then None else blocks h b)\<rparr>)
           | _ \<Rightarrow> Inl Use_after_free))"

section \<open>The allocator hooks\<close>

definition iso_malloc :: "heap \<Rightarrow> (nat \<times> heap) res" where
  "iso_malloc h = rbind (talloc_size True (iso_ctx h) h) (\<lambda>(a, h). rbind (deref a) (\<lambda>a. Inr (a, h)))"

definition iso_free :: "nat \<Rightarrow> heap \<Rightarrow> heap res" where
  "iso_free ctx h = talloc_release (Some ctx) h"

definition cjson_iso_allocators :: "heap \<Rightarrow> heap" where
  "cjson_iso_allocators h = h\<lparr>json_hooks := Iso_alloc\<rparr>"

definition cjson_std_allocators :: "heap \<Rightarrow> heap" where
  "cjson_std_allocators h = h\<lparr>json_hooks := Std_alloc\<rparr>"

text \<open>What cJSON calls: the hooks, or the C library, which refuses a block of talloc.\<close>

definition hook_malloc :: "heap \<Rightarrow> (nat \<times> heap) res" where
  "hook_malloc h = (if json_hooks h = Iso_alloc then iso_malloc h else Inr (new_block Libc h))"

definition hook_free :: "nat \<Rightarrow> heap \<Rightarrow> heap res" where
  "hook_free a h =
     (if json_hooks h = Iso_alloc then iso_free a h
      else if blocks h a = Some Libc then Inr (h\<lparr>blocks := (blocks h)(a := None)\<rparr>)
      else Inl Use_after_free)"

primrec json_parse :: "nat \<Rightarrow> heap \<Rightarrow> (nat list \<times> heap) res" where
  "json_parse 0 h = Inr ([], h)"
| "json_parse (Suc n) h =
     rbind (hook_malloc h) (\<lambda>(a, h). rbind (json_parse n h) (\<lambda>(js, h). Inr (a # js, h)))"

text \<open>The parts of a value are freed before the value.\<close>

primrec json_delete :: "nat list \<Rightarrow> heap \<Rightarrow> heap res" where
  "json_delete [] h = Inr h"
| "json_delete (a # js) h = rbind (json_delete js h) (hook_free a)"

section \<open>The memory of a line\<close>

text \<open>
  The exchange: one entry for each message, \<open>None\<close> for a time-out, else the number of blocks of its
  JSON value and whether the code goes to the termination label with it. The result is the value
  \<open>resp\<close> points to at that label.
\<close>

primrec exchange_loop :: "(nat \<times> bool) option list \<Rightarrow> heap \<Rightarrow> (nat list \<times> heap) res" where
  "exchange_loop [] h = Inr ([], h)"
| "exchange_loop (msg # msgs) h =
     (case msg of
        None \<Rightarrow> exchange_loop msgs h
      | Some (n, to_term) \<Rightarrow>
          rbind (json_parse n h) (\<lambda>(resp, h).
          if resp \<noteq> [] \<and> to_term then Inr (resp, h)
          else rbind (json_delete resp h) (exchange_loop msgs)))"

record line_use =
  pool_ok :: bool          \<comment> \<open>whether talloc provides the pool, the context, the reader\<close>
  ctx_ok :: bool
  reader_ok :: bool
  request :: nat           \<comment> \<open>the blocks of the line as a JSON value\<close>
  to_socket :: bool        \<comment> \<open>whether the line reaches \<open>sub_devmgr_socket\<close>\<close>
  messages :: "(nat \<times> bool) option list"

definition exchange_memory :: "line_use \<Rightarrow> nat option \<Rightarrow> heap \<Rightarrow> heap res" where
  "exchange_memory u pool h =
     rbind (talloc_size (ctx_ok u) pool h) (\<lambda>(ctx, h).
     rbind
       (rbind (talloc_size (reader_ok u) ctx h) (\<lambda>(reader, h).
        rbind (if reader = None then Inr h
               else rbind (exchange_loop (messages u) h) (\<lambda>(resp, h). json_delete resp h))
          (talloc_release reader)))
       (talloc_release ctx))"

definition line_memory :: "line_use \<Rightarrow> nat option \<Rightarrow> heap \<Rightarrow> heap res" where
  "line_memory u pool h =
     (let h = (cjson_iso_allocators (h\<lparr>iso_ctx := pool\<rparr>))\<lparr>arg_hooks := Iso_alloc\<rparr>
      in rbind (json_parse (request u) h) (\<lambda>(cmdobj, h).
         rbind (if to_socket u then exchange_memory u pool h else Inr h) (\<lambda>h.
         rbind (json_delete cmdobj h) (\<lambda>h.
         Inr ((cjson_std_allocators h)\<lparr>arg_hooks := Std_alloc\<rparr>)))))"

primrec stream_memory :: "line_use list \<Rightarrow> heap \<Rightarrow> heap res" where
  "stream_memory [] h = Inr h"
| "stream_memory (u # us) h =
     rbind (talloc_size (pool_ok u) None h) (\<lambda>(pool, h).
     rbind (line_memory u pool h) (\<lambda>h.
     rbind (talloc_release pool h) (stream_memory us)))"

section \<open>Well-formed heaps\<close>

definition wf_heap :: "heap \<Rightarrow> bool" where
  "wf_heap h \<longleftrightarrow> (\<forall>a k. blocks h a = Some k \<longrightarrow> a < fresh h
     \<and> (\<forall>p. k = Talloc (Some p) \<longrightarrow> p < a \<and> (\<exists>q. blocks h p = Some (Talloc q))))"

text \<open>The parent a block may be given.\<close>

definition parent_ok :: "heap \<Rightarrow> nat option \<Rightarrow> bool" where
  "parent_ok h p \<longleftrightarrow> (\<forall>a. p = Some a \<longrightarrow> (\<exists>q. blocks h a = Some (Talloc q)))"

text \<open>A computation between the two heaps has given back what it took.\<close>

definition balanced :: "heap \<Rightarrow> heap \<Rightarrow> bool" where
  "balanced h h' \<longleftrightarrow> blocks h' = blocks h \<and> fresh h \<le> fresh h' \<and> iso_ctx h' = iso_ctx h
     \<and> json_hooks h' = json_hooks h \<and> arg_hooks h' = arg_hooks h"

lemma balanced_refl [simp]: "balanced h h"
  by (simp add: balanced_def)

lemma balanced_trans [trans]: "balanced h h' \<Longrightarrow> balanced h' h'' \<Longrightarrow> balanced h h''"
  by (simp add: balanced_def)

lemma balanced_wf: "balanced h h' \<Longrightarrow> wf_heap h \<Longrightarrow> wf_heap h'"
  by (auto simp: balanced_def wf_heap_def intro: less_le_trans)

lemma parent_ok_None [simp]: "parent_ok h None"
  by (simp add: parent_ok_def)

lemma fresh_unused: "wf_heap h \<Longrightarrow> fresh h \<le> a \<Longrightarrow> blocks h a = None"
  by (metis wf_heap_def not_None_eq not_le)

lemma fresh_no_parent: "wf_heap h \<Longrightarrow> blocks h b = Some (Talloc (Some p)) \<Longrightarrow> p < fresh h"
  by (meson less_trans wf_heap_def)

lemma talloc_size_eq:
  "parent_ok h p \<Longrightarrow> talloc_size ok p h =
     Inr (if ok then (Some (fresh h), snd (new_block (Talloc p) h)) else (None, h))"
  by (cases p) (auto simp: talloc_size_def parent_ok_def new_block_def)

lemma wf_new_block: "wf_heap h \<Longrightarrow> parent_ok h p \<Longrightarrow> wf_heap (snd (new_block (Talloc p) h))"
  using fresh_unused [of h "fresh h"]
  by (auto simp: wf_heap_def new_block_def parent_ok_def less_Suc_eq split: if_splits)

lemma within_leaf:
  assumes "\<And>b. m b \<noteq> Some (Talloc (Some a))"
  shows "within n m a b \<Longrightarrow> a = b"
  by (induction n arbitrary: b) (use assms in \<open>auto split: option.splits origin.splits\<close>)

lemma release_leaf:
  assumes "blocks h a = Some (Talloc q)" and "a < fresh h"
    and "\<And>b. blocks h b \<noteq> Some (Talloc (Some a))"
  shows "talloc_release (Some a) h = Inr (h\<lparr>blocks := (blocks h)(a := None)\<rparr>)"
proof -
  have "within (fresh h) (blocks h) a a" using assms(2) by (cases "fresh h") auto
  then have "within (fresh h) (blocks h) a b = (a = b)" for b
    using within_leaf [of "blocks h" a, OF assms(3)] by blast
  moreover have "(\<lambda>b. if a = b then None else blocks h b) = (blocks h)(a := None)" by auto
  ultimately show ?thesis using assms(1) by (simp add: talloc_release_def)
qed

text \<open>A block that was taken and whose user has given back everything else is given back.\<close>

lemma release_new:
  assumes "wf_heap h" and "parent_ok h p" and "balanced (snd (new_block (Talloc p) h)) h'"
  shows "\<exists>h''. talloc_release (Some (fresh h)) h' = Inr h'' \<and> balanced h h''"
proof -
  have b: "blocks h' = (blocks h)(fresh h \<mapsto> Talloc p)" "Suc (fresh h) \<le> fresh h'"
    using assms(3) by (simp_all add: balanced_def new_block_def)
  have "blocks h' c \<noteq> Some (Talloc (Some (fresh h)))" for c
    using assms(1,2) fresh_no_parent [OF assms(1), of c "fresh h"] fresh_unused [OF assms(1)]
    by (auto simp: b(1) parent_ok_def)
  then have "talloc_release (Some (fresh h)) h' = Inr (h'\<lparr>blocks := (blocks h')(fresh h := None)\<rparr>)"
    using b by (intro release_leaf) simp_all
  moreover have "balanced h (h'\<lparr>blocks := (blocks h')(fresh h := None)\<rparr>)"
    using assms(3) b(2) fresh_unused [OF assms(1), of "fresh h"]
    by (auto simp: balanced_def new_block_def)
  ultimately show ?thesis by blast
qed

text \<open>A heap in which the hooks can be used, and one that has grown by blocks of talloc.\<close>

definition iso_ready :: "heap \<Rightarrow> bool" where
  "iso_ready h \<longleftrightarrow> wf_heap h \<and> json_hooks h = Iso_alloc \<and> parent_ok h (iso_ctx h)"

definition grown :: "heap \<Rightarrow> heap \<Rightarrow> bool" where
  "grown h h' \<longleftrightarrow> wf_heap h' \<and> (\<forall>p. parent_ok h p \<longrightarrow> parent_ok h' p)
     \<and> iso_ctx h' = iso_ctx h \<and> json_hooks h' = json_hooks h \<and> arg_hooks h' = arg_hooks h"

lemma grown_new: "wf_heap h \<Longrightarrow> parent_ok h p \<Longrightarrow> grown h (snd (new_block (Talloc p) h))"
  using wf_new_block [of h p] by (auto simp: grown_def new_block_def parent_ok_def)

lemma grown_trans: "grown h h' \<Longrightarrow> grown h' h'' \<Longrightarrow> grown h h''"
  by (simp add: grown_def)

lemma iso_ready_grown: "iso_ready h \<Longrightarrow> grown h h' \<Longrightarrow> iso_ready h'"
  by (simp add: iso_ready_def grown_def)

lemma parent_ok_balanced: "balanced h h' \<Longrightarrow> parent_ok h' p = parent_ok h p"
  by (simp add: balanced_def parent_ok_def)

lemma iso_ready_balanced: "iso_ready h \<Longrightarrow> balanced h h' \<Longrightarrow> iso_ready h'"
  using parent_ok_balanced [of h h' "iso_ctx h"] balanced_wf [of h h']
  by (auto simp: iso_ready_def balanced_def)

section \<open>Everything is given back\<close>

lemma json_parse_delete:
  "iso_ready h \<Longrightarrow> \<exists>js h'. json_parse n h = Inr (js, h') \<and> grown h h' \<and> length js = n
     \<and> (\<forall>h1. balanced h' h1 \<longrightarrow> (\<exists>h2. json_delete js h1 = Inr h2 \<and> balanced h h2))"
proof (induction n arbitrary: h)
  case 0
  then show ?case by (auto simp: grown_def iso_ready_def)
next
  case (Suc n)
  let ?h = "snd (new_block (Talloc (iso_ctx h)) h)"
  have r: "wf_heap h" "parent_ok h (iso_ctx h)" "json_hooks h = Iso_alloc"
    using Suc.prems by (simp_all add: iso_ready_def)
  then have m: "hook_malloc h = Inr (fresh h, ?h)"
    by (simp add: hook_malloc_def iso_malloc_def talloc_size_eq)
  have g: "grown h ?h" by (rule grown_new [OF r(1,2)])
  from Suc.IH [OF iso_ready_grown [OF Suc.prems g]] obtain js h' where
    p: "json_parse n ?h = Inr (js, h')" "grown ?h h'" "length js = n"
    and d: "\<And>h1. balanced h' h1 \<Longrightarrow> \<exists>h2. json_delete js h1 = Inr h2 \<and> balanced ?h h2" by blast
  have "\<exists>h3. json_delete (fresh h # js) h1 = Inr h3 \<and> balanced h h3" if b: "balanced h' h1" for h1
  proof -
    from d [OF b] obtain h2 where h2: "json_delete js h1 = Inr h2" "balanced ?h h2" by blast
    from release_new [OF r(1,2) h2(2)] obtain h3 where
      "talloc_release (Some (fresh h)) h2 = Inr h3" "balanced h h3" by blast
    moreover have "json_hooks h2 = Iso_alloc" using h2(2) r(3) by (simp add: balanced_def new_block_def)
    ultimately show ?thesis using h2(1) by (simp add: hook_free_def iso_free_def)
  qed
  then show ?case using m p grown_trans [OF g p(2)] by simp
qed

text \<open>Memory that is taken for the time of a computation.\<close>

lemma bracket:
  assumes h: "wf_heap h" "parent_ok h p"
    and f: "\<And>ptr h1. grown h h1 \<Longrightarrow> parent_ok h1 ptr \<Longrightarrow> \<exists>h2. f ptr h1 = Inr h2 \<and> balanced h1 h2"
  shows "\<exists>h'. rbind (talloc_size ok p h) (\<lambda>(ptr, h). rbind (f ptr h) (talloc_release ptr)) = Inr h'
    \<and> balanced h h'"
proof (cases ok)
  case True
  let ?h = "snd (new_block (Talloc p) h)"
  have "parent_ok ?h (Some (fresh h))" by (simp add: parent_ok_def new_block_def)
  from f [OF grown_new [OF h] this] obtain h2 where "f (Some (fresh h)) ?h = Inr h2" "balanced ?h h2" by blast
  with release_new [OF h this(2)] True show ?thesis by (auto simp: talloc_size_eq [OF h(2)])
next
  case False
  have "grown h h" using h(1) by (simp add: grown_def)
  from f [OF this, of None] False show ?thesis
    by (auto simp: talloc_size_eq [OF h(2)] talloc_release_def)
qed

lemma exchange_loop_balanced:
  "iso_ready h \<Longrightarrow> \<exists>resp h' h2. exchange_loop msgs h = Inr (resp, h')
     \<and> json_delete resp h' = Inr h2 \<and> balanced h h2"
proof (induction msgs arbitrary: h)
  case (Cons msg msgs)
  show ?case
  proof (cases msg)
    case None
    then show ?thesis using Cons by simp
  next
    case (Some m)
    obtain n t where m: "m = (n, t)" by (cases m)
    from json_parse_delete [OF Cons.prems, of n] obtain js h' h2 where
      p: "json_parse n h = Inr (js, h')" "json_delete js h' = Inr h2" "balanced h h2"
      using balanced_refl by blast
    from Cons.IH [OF iso_ready_balanced [OF Cons.prems p(3)]] balanced_trans [OF p(3)]
    show ?thesis using p by (auto simp: Some m)
  qed
qed simp

lemma exchange_memory_balanced:
  assumes "iso_ready h" and "parent_ok h pool"
  shows "\<exists>h'. exchange_memory u pool h = Inr h' \<and> balanced h h'"
  unfolding exchange_memory_def
proof (rule bracket)
  fix ctx h1
  assume g: "grown h h1" "parent_ok h1 ctx"
  have r: "iso_ready h1" by (rule iso_ready_grown [OF assms(1) g(1)])
  show "\<exists>h2. rbind (talloc_size (reader_ok u) ctx h1) (\<lambda>(reader, h).
      rbind (if reader = None then Inr h
             else rbind (exchange_loop (messages u) h) (\<lambda>(resp, h). json_delete resp h))
        (talloc_release reader)) = Inr h2 \<and> balanced h1 h2"
  proof (rule bracket)
    show "wf_heap h1" "parent_ok h1 ctx" using r g(2) by (simp_all add: iso_ready_def)
    fix reader h2
    assume "grown h1 h2" "parent_ok h2 reader"
    from exchange_loop_balanced [OF iso_ready_grown [OF r this(1)], of "messages u"]
    show "\<exists>h3. (if reader = None then Inr h2
        else rbind (exchange_loop (messages u) h2) (\<lambda>(resp, h). json_delete resp h)) = Inr h3 \<and> balanced h2 h3"
      by auto
  qed
qed (use assms in \<open>simp_all add: iso_ready_def\<close>)

text \<open>The state of the heap between two lines: the hooks are those of the C library.\<close>

definition hooks_off :: "heap \<Rightarrow> bool" where
  "hooks_off h \<longleftrightarrow> wf_heap h \<and> json_hooks h = Std_alloc \<and> arg_hooks h = Std_alloc"

text \<open>What a line may change: the next block and the context of the hooks.\<close>

definition restored :: "heap \<Rightarrow> heap \<Rightarrow> bool" where
  "restored h h' \<longleftrightarrow> blocks h' = blocks h \<and> fresh h \<le> fresh h'
     \<and> json_hooks h' = json_hooks h \<and> arg_hooks h' = arg_hooks h"

lemma restored_off: "restored h h' \<Longrightarrow> hooks_off h \<Longrightarrow> hooks_off h'"
  by (auto simp: restored_def hooks_off_def wf_heap_def intro: less_le_trans)

lemma line_memory_restored:
  assumes "hooks_off h" and "parent_ok h pool"
  shows "\<exists>h'. line_memory u pool h = Inr h' \<and> restored h h'"
proof -
  let ?h = "(cjson_iso_allocators (h\<lparr>iso_ctx := pool\<rparr>))\<lparr>arg_hooks := Iso_alloc\<rparr>"
  have r: "iso_ready ?h"
    using assms by (simp add: iso_ready_def hooks_off_def cjson_iso_allocators_def wf_heap_def parent_ok_def)
  from json_parse_delete [OF r, of "request u"] obtain js h1 where
    p: "json_parse (request u) ?h = Inr (js, h1)" "grown ?h h1"
    and d: "\<And>h2. balanced h1 h2 \<Longrightarrow> \<exists>h3. json_delete js h2 = Inr h3 \<and> balanced ?h h3" by blast
  have "parent_ok ?h pool" using assms(2) by (simp add: parent_ok_def cjson_iso_allocators_def)
  then have "parent_ok h1 pool" using p(2) by (simp add: grown_def)
  from exchange_memory_balanced [OF iso_ready_grown [OF r p(2)] this] obtain h2 where
    "(if to_socket u then exchange_memory u pool h1 else Inr h1) = Inr h2" "balanced h1 h2"
    using balanced_refl by (cases "to_socket u") auto
  moreover from d [OF this(2)] obtain h3 where "json_delete js h2 = Inr h3" "balanced ?h h3" by blast
  ultimately show ?thesis using p(1) assms(1)
    by (simp add: line_memory_def Let_def restored_def balanced_def hooks_off_def
        cjson_iso_allocators_def cjson_std_allocators_def)
qed

lemma release_iso_ctx:
  "talloc_release p (h\<lparr>iso_ctx := x\<rparr>) = Inr h2 \<Longrightarrow>
     \<exists>h1. talloc_release p h = Inr h1 \<and> h2 = h1\<lparr>iso_ctx := x\<rparr>"
  by (cases p; cases h) (auto simp: talloc_release_def split: option.splits origin.splits)

lemma pass_restored:
  assumes "hooks_off h"
  shows "\<exists>h'. rbind (talloc_size ok None h) (\<lambda>(pool, h). rbind (line_memory u pool h) (talloc_release pool))
    = Inr h' \<and> restored h h'"
proof (cases ok)
  case True
  let ?h = "snd (new_block (Talloc None) h)"
  have h: "wf_heap h" "parent_ok h None" using assms by (simp_all add: hooks_off_def)
  have "hooks_off ?h" using assms wf_new_block [OF h] by (simp add: hooks_off_def new_block_def)
  moreover have "parent_ok ?h (Some (fresh h))" by (simp add: parent_ok_def new_block_def)
  ultimately obtain h1 where l: "line_memory u (Some (fresh h)) ?h = Inr h1" "restored ?h h1"
    using line_memory_restored by blast
  have "balanced ?h (h1\<lparr>iso_ctx := iso_ctx ?h\<rparr>)" using l(2) by (simp add: restored_def balanced_def)
  from release_new [OF h this] obtain h2 where
    h2: "talloc_release (Some (fresh h)) (h1\<lparr>iso_ctx := iso_ctx ?h\<rparr>) = Inr h2" "balanced h h2" by blast
  from release_iso_ctx [OF h2(1)] obtain h3 where
    "talloc_release (Some (fresh h)) h1 = Inr h3" "h2 = h3\<lparr>iso_ctx := iso_ctx ?h\<rparr>" by blast
  then have "\<exists>h2. talloc_release (Some (fresh h)) h1 = Inr h2 \<and> restored h h2"
    using h2(2) by (simp add: restored_def balanced_def)
  then show ?thesis using l(1) True by (simp add: talloc_size_eq [OF h(2)])
next
  case False
  with line_memory_restored [OF assms, of None u] show ?thesis
    by (auto simp: talloc_size_eq talloc_release_def)
qed

text \<open>C22: command lines neither leak nor corrupt memory: whatever the lines, the JSON values, the
  messages of the daemon and the allocations that fail, a stream of lines never frees a block
  twice, never uses a released context and never gives a block to the wrong allocator; at its end
  exactly the blocks of its start are alive, also without the memory pool that would release
  them, and the hooks are those of the C library again, so that the pointer to the last pool,
  which is left dangling, is not used.\<close>

theorem stream_memory_balanced:
  assumes "hooks_off h"
  shows "\<exists>h'. stream_memory us h = Inr h' \<and> blocks h' = blocks h \<and> hooks_off h'"
proof -
  have "\<exists>h'. stream_memory us h = Inr h' \<and> restored h h'"
    using assms
  proof (induction us arbitrary: h)
    case (Cons u us)
    from pass_restored [OF Cons.prems, of "pool_ok u" u] obtain h1 where
      p: "rbind (talloc_size (pool_ok u) None h) (\<lambda>(pool, h). rbind (line_memory u pool h) (talloc_release pool))
        = Inr h1" "restored h h1" by (elim exE conjE)
    from Cons.IH [OF restored_off [OF p(2) Cons.prems]] obtain h2 where
      "stream_memory us h1 = Inr h2" "restored h1 h2" by blast
    moreover from this(2) p(2) have "restored h h2" by (simp add: restored_def)
    ultimately show ?case using p(1) by (auto simp: rbind_eq_Inr)
  qed (simp add: restored_def)
  then show ?thesis using restored_off [OF _ assms] by (auto simp: restored_def)
qed

text \<open>A line whose exchange sees a time-out, a message that is deleted, and one with which the code
  goes to the termination label.\<close>

definition demo_heap :: heap where
  "demo_heap = \<lparr>blocks = [0 \<mapsto> Talloc None], fresh = 1, iso_ctx = None, json_hooks = Std_alloc,
     arg_hooks = Std_alloc\<rparr>"

definition demo_line :: line_use where
  "demo_line = \<lparr>pool_ok = True, ctx_ok = True, reader_ok = True, request = 2, to_socket = True,
     messages = [None, Some (3, False), Some (2, True)]\<rparr>"

theorem stream_memory_balanced_witness:
  "hooks_off demo_heap
   \<and> (\<exists>h'. stream_memory [demo_line, demo_line\<lparr>pool_ok := False, reader_ok := False\<rparr>] demo_heap = Inr h'
        \<and> blocks h' = [0 \<mapsto> Talloc None] \<and> json_hooks h' = Std_alloc)"
proof -
  have "hooks_off demo_heap" by (simp add: hooks_off_def wf_heap_def demo_heap_def)
  from this stream_memory_balanced [OF this, of "[demo_line, demo_line\<lparr>pool_ok := False, reader_ok := False\<rparr>]"]
  show ?thesis by (auto simp: hooks_off_def) (simp add: demo_heap_def)
qed

end
