(* ===== verification/Main_Program.thy ===== *)
theory Main_Program
  imports Dterm Sockpush_Calls
begin

text \<open>
  The program itself, \<open>main/main.c\<close>: collecting the command from the arguments after \<open>--\<close> or from
  standard input, the client options, and \<open>ottercat_main\<close>, which opens the socket, runs the
  command stream and closes everything. The argument parser argtable3 is not part of the
  repository: it is a function of the environment from the arguments to what it stores. The
  thread that \<open>sp_open\<close> starts has set up its line buffer when the 5 ms pause ends.
\<close>

section \<open>Local functions\<close>

definition sub_copy_stringarg ::
    "bool \<Rightarrow> byte list option \<Rightarrow> int \<Rightarrow> byte list \<Rightarrow> (int \<times> byte list option) res" where
  "sub_copy_stringarg malloc_ok dststring argcount argstring =
     (if argcount \<noteq> 0 then
        rbind (cstring argstring) (\<lambda>s.
        if \<not> malloc_ok then Inr (-1, None) else Inr (argcount, Some (s @ [NUL])))
      else Inr (0, dststring))"

definition sub_intf_cmp :: "byte list \<Rightarrow> INTF_Type" where
  "sub_intf_cmp s1 =
     (if s1 = ''pipe'' then INTF_pipe else if s1 = ''socket'' then INTF_socket else INTF_interactive)"

definition sub_fmt_cmp :: "byte list \<Rightarrow> FORMAT_Type" where
  "sub_fmt_cmp s1 =
     (if s1 = ''default'' then FORMAT_Default else if s1 = ''json'' then FORMAT_Json
      else if s1 = ''jsonhex'' then FORMAT_JsonHex else if s1 = ''bintex'' then FORMAT_Bintex
      else if s1 = ''hex'' then FORMAT_Hex else FORMAT_Default)"

text \<open>
  The input descriptor as the list of results of its reads, each with the byte read; at its end
  reads return 0.
\<close>

primrec readline_loop ::
    "nat \<Rightarrow> int \<Rightarrow> (int \<times> byte) list \<Rightarrow> byte list \<Rightarrow> nat \<Rightarrow> (int \<times> nat \<times> byte list) res" where
  "readline_loop 0 rc input buf a = Inr (rc, a, buf)"
| "readline_loop (Suc left) rc input buf a =
     (case input of
        [] \<Rightarrow> Inr (0, a, buf)
      | (rc, test) # input \<Rightarrow>
          if rc \<noteq> 1 then Inr (rc, a, buf)
          else rbind (st buf a test) (\<lambda>buf.
               if test = LF \<or> test = NUL then Inr (rc, Suc a, buf)
               else readline_loop left rc input buf (Suc a)))"

definition sub_readline :: "(int \<times> byte) list \<Rightarrow> byte list \<Rightarrow> nat \<Rightarrow> (int \<times> nat \<times> byte list) res" where
  "sub_readline input buf left =
     rbind (readline_loop left 0 input buf 0) (\<lambda>(rc, bytesin, buf).
     Inr (if rc \<ge> 0 then int bytesin else rc, bytesin, buf))"

section \<open>ottercat_main\<close>

record arg_result =
  nullcheck :: bool
  nerrors :: nat
  help_count :: nat
  version_count :: nat
  verbose_count :: nat
  debug_count :: nat
  timeout_count :: nat
  timeout_ival :: int
  retries_count :: nat
  retries_ival :: int
  socket_filename :: "byte list"
  help_text :: "byte list"
  errors_text :: "byte list"

record main_env =
  p_term :: term_env
  p_open :: open_env
  p_linebuf :: "byte list"                     \<comment> \<open>what the thread's line buffer holds at first\<close>
  p_talloc_ok :: bool
  p_cancel_rc :: int
  p_unlock_ok :: bool                          \<comment> \<open>the platform accepts the unlocks of \<open>sp_close\<close>\<close>
  p_malloc :: "nat \<Rightarrow> byte list option"        \<comment> \<open>the block \<open>malloc\<close> gives for a command\<close>
  p_malloc_ok :: bool                          \<comment> \<open>whether the copy of the socket path succeeds\<close>
  p_input :: "(int \<times> byte) list"
  p_args :: "byte list list \<Rightarrow> arg_result"
  p_cliopts :: cliopt_t                        \<comment> \<open>the static structure, before its initialization\<close>
  p_dth :: dterm_handle_t                      \<comment> \<open>the automatic handle, before its initialization\<close>
  p_version :: "byte list"

definition E_CYN :: string where "E_CYN = ESC # ''[36m''"

definition VERBOSE_PRINTF :: "cliopt_t option \<Rightarrow> byte list \<Rightarrow> world \<Rightarrow> world res" where
  "VERBOSE_PRINTF opt s w =
     rbind (cliopt_isverbose opt) (\<lambda>v.
     Inr (if v then emit (E_CYN @ ''MSG: '' @ E_NRM @ s) w else w))"

text \<open>The \<open>switch (cmdrc)\<close>.\<close>

definition report_cmdrc :: "cliopt_t option \<Rightarrow> int \<Rightarrow> byte list \<Rightarrow> world \<Rightarrow> world res" where
  "report_cmdrc opt cmdrc cmdstr w =
     (if cmdrc = 0 then VERBOSE_PRINTF opt (''Command finished successfully'' @ [LF]) w
      else
        rbind (if cmdrc = -1 then ERR_PRINTF opt (''dterm_cmdfile() out of memory. (-1)'' @ [LF]) w
               else if cmdrc = -2 then ERR_PRINTF opt (''command cannot be opened. (-2)'' @ [LF]) w
               else if cmdrc = -3 then ERR_PRINTF opt (''command cannot be read. (-3)'' @ [LF]) w
               else Inr w) (\<lambda>w.
        rbind (cstring cmdstr) (\<lambda>s.
        Inr (emit_err (E_RED @ ''ERR: '' @ E_NRM @ ''Error running command: '' @ s @ ''.'' @ [LF]) w))))"

text \<open>From the label \<open>ottercat_main_TERM\<close>.\<close>

definition main_term ::
    "main_env \<Rightarrow> bool \<Rightarrow> sp_handle_t \<Rightarrow> int \<Rightarrow> resource set \<Rightarrow> world
     \<Rightarrow> (int \<times> resource set \<times> world) res" where
  "main_term P use_sock devmgr_handle exitcode live w =
     rbind (if devmgr_handle \<noteq> SP_NULL \<and> use_sock
            then rbind (sp_close (p_cancel_rc P) (p_unlock_ok P) devmgr_handle live) (\<lambda>(rc, live). Inr live)
            else Inr live) (\<lambda>live.
     Inr (exitcode, live, w))"

definition ottercat_main ::
    "main_env \<Rightarrow> 'j cjson \<Rightarrow> cliopt_t option \<Rightarrow> byte list option \<Rightarrow> byte list option \<Rightarrow> world
     \<Rightarrow> (int \<times> resource set \<times> world) res option" where
  "ottercat_main P api opt socket cmdstr w =
     obind (Some (sp_open (p_open P) False socket 0 {})) (\<lambda>(rc, sp, live).
     if rc \<noteq> 0 then
       Some (main_term P False SP_NULL (-2) live
         (emit_err (''Err: socket could not be opened.'' @ [LF]) w))
     else
       (let w = w\<lparr>item := sp_thread_init (p_linebuf P) (the sp)\<rparr> in
        obind (Some (dterm_init (p_talloc_ok P) (Some (p_dth P)) 0 1 True SP_ITEM {}))
          (\<lambda>(rc, dth, ctxs).
        if rc \<noteq> 0 then Some (main_term P True SP_ITEM (-2) live w)
        else
          (let T = (p_term P)\<lparr>t_env := (t_env (p_term P))\<lparr>opts := opt\<rparr>\<rparr> in
           obind (dterm_cmdstream T api (the dth) cmdstr w) (\<lambda>(cmdrc, dth, m, w).
           obind (Some (rbind (deref m) (\<lambda>m. report_cmdrc opt cmdrc m w))) (\<lambda>w.
           obind (Some (dterm_deinit dth ctxs)) (\<lambda>ctxs.
           Some (main_term P True SP_ITEM 0 live w))))))))"

section \<open>main\<close>

definition stpcpy :: "byte list \<Rightarrow> nat \<Rightarrow> byte list \<Rightarrow> (nat \<times> byte list) res" where
  "stpcpy m dst s =
     (if dst + length s < length m
      then Inr (dst + length s, take dst m @ s @ NUL # drop (Suc (dst + length s)) m)
      else Inl Out_of_bounds)"

primrec join_args :: "byte list list \<Rightarrow> byte list \<Rightarrow> nat \<Rightarrow> byte list res" where
  "join_args [] m cursor = Inr m"
| "join_args (a # as) m cursor =
     rbind (stpcpy m cursor a) (\<lambda>(cursor, m).
     rbind (st m cursor (CHR '' '')) (\<lambda>m.
     join_args as m (Suc cursor)))"

text \<open>The arguments up to \<open>--\<close> and those after it.\<close>

definition formal_args :: "byte list list \<Rightarrow> byte list list" where
  "formal_args argv = takeWhile (\<lambda>a. a \<noteq> ''--'') argv"

definition inline_args :: "byte list list \<Rightarrow> byte list list" where
  "inline_args argv = drop (Suc (length (formal_args argv))) argv"

definition cmdstr_size :: "byte list list \<Rightarrow> nat" where
  "cmdstr_size argv = sum_list (map (\<lambda>a. length a + 1) (inline_args argv))"

text \<open>Lines 304 to 323: the command from the arguments, \<open>None\<close> when there is none; \<open>Some None\<close> is a
  failed allocation.\<close>

definition inline_command :: "main_env \<Rightarrow> byte list list \<Rightarrow> byte list option option res" where
  "inline_command P argv =
     (if cmdstr_size argv = 0 then Inr None
      else case p_malloc P (cmdstr_size argv) of
          None \<Rightarrow> Inr (Some None)
        | Some m \<Rightarrow> rbind (join_args (inline_args argv) m 0) (\<lambda>m. Inr (Some (Some m))))"

text \<open>Lines 389 to 401: the command from standard input, \<open>None\<close> when the program gives up.\<close>

definition stdin_command :: "main_env \<Rightarrow> byte list option res" where
  "stdin_command P =
     (case p_malloc P 1024 of
        None \<Rightarrow> Inr None
      | Some m \<Rightarrow>
          rbind (sub_readline (p_input P) m 1024) (\<lambda>(rc, size, m).
          Inr (if rc \<le> 0 then None else if size = 0 then None else Some m)))"

text \<open>Lines 283 to 287, 366 to 381 and 403 to 408: the client options from what the parser stored.\<close>

definition main_options :: "main_env \<Rightarrow> arg_result \<Rightarrow> cliopt_t option res" where
  "main_options P a =
     (let verbose_val = (verbose_count a \<noteq> 0); debug_val = (debug_count a \<noteq> 0);
          timeout_val = (if timeout_count a \<noteq> 0 then timeout_ival a else 500)
      in rbind (if retries_count a \<noteq> 0 then ck_int (1 + retries_ival a) else Inr 1) (\<lambda>tries_val.
         cli_configure (p_cliopts P) verbose_val debug_val timeout_val tries_val))"

definition main ::
    "main_env \<Rightarrow> 'j cjson \<Rightarrow> byte list list \<Rightarrow> world \<Rightarrow> (int \<times> resource set \<times> world) res option" where
  "main P api argv w =
     obind (Some (inline_command P argv)) (\<lambda>inline.
     if inline = Some None then Some (Inr (0, {}, w))
     else
       (let a = p_args P (formal_args argv) in
        if nullcheck a then
          Some (Inr (1, {}, emit_err (OTTERCAT_PARAM_NAME @ '': insufficient memory'' @ [LF]) w))
        else if help_count a > 0 then
          Some (Inr (0, {}, emit (''Usage: '' @ OTTERCAT_PARAM_NAME @ help_text a) w))
        else if version_count a > 0 then Some (Inr (0, {}, emit (p_version P) w))
        else if nerrors a > 0 then
          Some (Inr (1, {}, emit (errors_text a @ ''Try '' @ CHR 0x27 # OTTERCAT_PARAM_NAME @ '' --help''
            @ CHR 0x27 # '' for more information.'' @ [LF]) w))
        else
          obind (Some (main_options P a)) (\<lambda>opt.
          if \<not> p_malloc_ok P then Some (Inr (0, {}, w))
          else
            obind (Some (case inline of None \<Rightarrow> stdin_command P | Some m \<Rightarrow> Inr m)) (\<lambda>cmdstr.
            if cmdstr = None then Some (Inr (0, {}, w))
            else ottercat_main P api opt (Some (socket_filename a)) cmdstr w))))"

end
