(* ===== verification/Devmgr_Spec.thy ===== *)
theory Devmgr_Spec
  imports Devmgr
begin

text \<open>
  The protocol that the device manager command implements, as an abstract machine over decoded
  messages, and the refinement: what the code does with each JSON message is what the machine
  does with its decoding, and whole exchanges of the code are runs of the machine under its time
  budget.
\<close>

section \<open>The abstract protocol\<close>

datatype msg =
    M_noise                            \<comment> \<open>not JSON, or a message of another type\<close>
  | M_ack int u32                      \<comment> \<open>error code and session id\<close>
  | M_rxstat u32 "byte list option"    \<comment> \<open>session id and frame, \<open>None\<close> if corrupt or invalid\<close>

datatype phase = Wait_ack | Wait_rx u32

datatype verdict = Stay phase | Retry | Stop int | Deliver "byte list"

fun proto :: "phase \<Rightarrow> msg \<Rightarrow> verdict" where
  "proto Wait_ack (M_ack e s) =
     (if e \<noteq> 0 then Stop (- 256 - \<bar>e\<bar>) else if s = 0 then Stop 0 else Stay (Wait_rx s))"
| "proto (Wait_rx s) (M_rxstat s' frame) =
     (if s = s' then (case frame of None \<Rightarrow> Retry | Some t \<Rightarrow> Deliver t) else Stay (Wait_rx s))"
| "proto p _ = Stay p"

section \<open>Decoding\<close>

definition str_field :: "'j cjson \<Rightarrow> 'j option \<Rightarrow> byte list \<Rightarrow> byte list option" where
  "str_field api obj name =
     (let i = cJSON_GetItem api obj name in
      if cJSON_IsString api i then Option.bind i (valuestring api) else None)"

definition int_field :: "'j cjson \<Rightarrow> 'j option \<Rightarrow> byte list \<Rightarrow> int option" where
  "int_field api obj name =
     (let i = cJSON_GetItem api obj name in
      if cJSON_IsNumber api i then map_option (valueint api) i else None)"

definition data_field :: "'j cjson \<Rightarrow> 'j \<Rightarrow> 'j option" where
  "data_field api j =
     (let d = cJSON_GetItem api (Some j) ''data'' in if cJSON_IsObject api d then d else None)"

definition data_int :: "'j cjson \<Rightarrow> 'j \<Rightarrow> byte list \<Rightarrow> int option" where
  "data_int api j name =
     (case data_field api j of None \<Rightarrow> None | Some d \<Rightarrow> int_field api (Some d) name)"

definition ack_sid :: "'j cjson \<Rightarrow> 'j \<Rightarrow> u32" where
  "ack_sid api j = (case data_int api j ''sid'' of None \<Rightarrow> 0 | Some n \<Rightarrow> word_of_int n)"

definition rx_frame :: "'j cjson \<Rightarrow> 'j \<Rightarrow> byte list option" where
  "rx_frame api j =
     (case data_field api j of None \<Rightarrow> None
      | Some d \<Rightarrow>
          if data_int api j ''sid'' = None then None
          else if data_int api j ''qual'' \<in> {None, Some 0} then str_field api (Some d) ''frame''
          else None)"

definition decode_json :: "'j cjson \<Rightarrow> 'j \<Rightarrow> msg" where
  "decode_json api j =
     (if str_field api (Some j) ''type'' = Some ''ack''
      then M_ack (case data_int api j ''err'' of None \<Rightarrow> -1 | Some e \<Rightarrow> e) (ack_sid api j)
      else if str_field api (Some j) ''type'' = Some ''rxstat''
      then M_rxstat (word_of_int (case data_int api j ''sid'' of None \<Rightarrow> -1 | Some n \<Rightarrow> n))
             (rx_frame api j)
      else M_noise)"

definition decode :: "'j cjson \<Rightarrow> byte list \<Rightarrow> msg" where
  "decode api text =
     (case cJSON_Parse api text of None \<Rightarrow> M_noise | Some j \<Rightarrow> decode_json api j)"

text \<open>
  Error codes for which \<open>-256 - abs(err)\<close> stays within \<open>int\<close>; the library gives every number
  that a text holds, saturated at the bounds of \<open>int\<close>, so the condition is one on the messages
  that are received. \<open>mild\<close> states it of a line, with its terminator, and \<open>mild_env\<close> of all lines
  that the I/O thread publishes.
\<close>

definition small_err :: "msg \<Rightarrow> bool" where
  "small_err msg \<longleftrightarrow> (case msg of M_ack e s \<Rightarrow> \<bar>e\<bar> \<le> 2 ^ 31 - 256 | _ \<Rightarrow> True)"

definition mild :: "'j cjson \<Rightarrow> byte list \<Rightarrow> bool" where
  "mild api f \<longleftrightarrow> small_err (decode api (butlast f))"

definition mild_env :: "'j cjson \<Rightarrow> sp_env \<Rightarrow> bool" where
  "mild_env api S \<longleftrightarrow> (\<forall>i. list_all (mild api) (ev_lines (os_event S i)))"

section \<open>Refinement of one message\<close>

fun rep :: "phase \<Rightarrow> dm \<Rightarrow> bool" where
  "rep Wait_ack m \<longleftrightarrow> dm_state m = 0"
| "rep (Wait_rx s) m \<longleftrightarrow> dm_state m = 1 \<and> dm_sid m = s"

definition copied :: "byte list \<Rightarrow> nat \<Rightarrow> nat" where
  "copied t dstmax = min (length t) (dstmax - 1)"

text \<open>The values the loop variables and the result have after a message with that verdict.\<close>

definition kept :: "dm \<Rightarrow> dm \<Rightarrow> bool" where
  "kept m m' \<longleftrightarrow> dm_timeout m' = dm_timeout m \<and> dm_dout m' = dm_dout m"

fun realises :: "nat \<Rightarrow> dm \<Rightarrow> verdict \<Rightarrow> int \<times> bool \<times> dm \<Rightarrow> bool" where
  "realises dstmax m (Stay p) (rc, term, m') \<longleftrightarrow>
     rc = -1 \<and> \<not> term \<and> rep p m' \<and> dm_dst m' = dm_dst m \<and> kept m m'"
| "realises dstmax m Retry (rc, term, m') \<longleftrightarrow>
     rc = -4 \<and> \<not> term \<and> dm_dst m' = dm_dst m \<and> kept m m'"
| "realises dstmax m (Stop e) (rc, term, m') \<longleftrightarrow>
     rc = e \<and> term \<and> dm_dst m' = dm_dst m \<and> kept m m'"
| "realises dstmax m (Deliver t) (rc, term, m') \<longleftrightarrow>
     rc = int (copied t dstmax) \<and> \<not> term
     \<and> dm_dst m' = take (Suc (copied t dstmax)) (t @ [NUL]) @ drop (Suc (copied t dstmax)) (dm_dst m)
     \<and> kept m m'"

lemma kept_simps [simp]:
  "kept m m" "kept m (m\<lparr>dm_sid := s\<rparr>)" "kept m (m\<lparr>dm_state := k\<rparr>)" "kept m (m\<lparr>dm_dst := d\<rparr>)"
  "kept m (m'\<lparr>dm_sid := s\<rparr>) = kept m m'" "kept m (m'\<lparr>dm_state := k\<rparr>) = kept m m'"
  "kept m (m'\<lparr>dm_dst := d\<rparr>) = kept m m'"
  by (simp_all add: kept_def)

lemma cjson_okD:
  assumes "cjson_ok api"
  shows "\<not> cJSON_IsString api None" "\<not> cJSON_IsNumber api None" "\<not> cJSON_IsObject api None"
    "cJSON_IsString api (Some j) \<Longrightarrow> \<exists>s. valuestring api j = Some s \<and> NUL \<notin> set s \<and> length s < 2 ^ 31"
    "int_ok (valueint api j)"
  using assms by (auto simp: cjson_ok_def)

lemma gettype_eq:
  assumes "cjson_ok api"
  shows "\<exists>t. sub_json_gettype api (Some j) name = Inr t
    \<and> (t \<noteq> None \<longleftrightarrow> str_field api (Some j) ''type'' = Some name)"
proof (cases "cJSON_GetItem api (Some j) ''type''")
  case None
  then show ?thesis using cjson_okD(1) [OF assms]
    by (simp add: sub_json_gettype_def str_field_def)
next
  case (Some t)
  then show ?thesis using cjson_okD(4) [OF assms, of t]
    by (cases "cJSON_IsString api (Some t)") (auto simp: sub_json_gettype_def str_field_def)
qed

lemma getack_eq:
  assumes "cjson_ok api"
  shows "sub_json_getack api (Some j) (Some sid) =
    Inr (case data_int api j ''err'' of None \<Rightarrow> (-1, Some sid) | Some e \<Rightarrow> (e, Some (ack_sid api j)))"
  using cjson_okD(2,3) [OF assms]
  by (auto simp: sub_json_getack_def data_int_def data_field_def int_field_def ack_sid_def Let_def
      split: option.splits)

lemma getframe_eq:
  assumes "cjson_ok api"
  shows "sub_json_getframe api (Some j) (Some None) (Some 0) =
    Inr (case data_field api j of None \<Rightarrow> (-1, Some None, Some 0)
         | Some d \<Rightarrow>
            (case int_field api (Some d) ''sid'' of None \<Rightarrow> (-1, Some None, Some 0)
             | Some n \<Rightarrow> (n, Some (cJSON_GetItem api (Some d) ''frame''),
                  Some (case int_field api (Some d) ''qual'' of None \<Rightarrow> 0 | Some q \<Rightarrow> q))))"
  using cjson_okD(2,3) [OF assms]
  by (auto simp: sub_json_getframe_def data_field_def int_field_def Let_def split: option.splits)

lemma devmgr_copy_eq:
  assumes "length t < 2 ^ 31" and "0 < dstmax" and "dstmax < 2 ^ 31" and "dstmax \<le> length (dm_dst m)"
  shows "devmgr_copy t dstmax m = Inr (int (copied t dstmax),
    m\<lparr>dm_dst := take (Suc (copied t dstmax)) (t @ [NUL]) @ drop (Suc (copied t dstmax)) (dm_dst m)\<rparr>)"
proof -
  have i: "to_int (int (length t)) = int (length t)" "to_int (int dstmax) = int dstmax"
    using assms by (auto intro!: to_int_id simp: int_ok_def)
  have rc: "(if int (length t) > int dstmax - 1 then int dstmax - 1 else int (length t))
      = int (copied t dstmax)"
    using assms(2) by (auto simp: copied_def)
  have n: "int_ok (int (copied t dstmax) + 1)" "int_ok (int dstmax - 1)"
    using assms by (auto simp: copied_def int_ok_def)
  have sz: "to_size (int (copied t dstmax) + 1) = Suc (copied t dstmax)"
    using assms by (simp add: to_size_def copied_def nat_eq_iff)
  have "Suc (copied t dstmax) \<le> length (dm_dst m)" "Suc (copied t dstmax) \<le> length (t @ [NUL])"
    using assms by (auto simp: copied_def)
  then show ?thesis using n
    by (simp only: devmgr_copy_def Let_def i ck_int_def rbind_Inr if_True rc sz memcpy_ok)
qed

lemma devmgr_ack_refines:
  assumes "cjson_ok api" and "small_err (decode_json api j)" and "dm_state m = 0"
  shows "\<exists>r. devmgr_ack api j m = Inr r \<and> realises dstmax m (proto Wait_ack (decode_json api j)) r"
proof -
  obtain t where t: "sub_json_gettype api (Some j) ''ack'' = Inr t"
    "t \<noteq> None \<longleftrightarrow> str_field api (Some j) ''type'' = Some ''ack''"
    using gettype_eq [OF assms(1)] by blast
  show ?thesis
  proof (cases "t = None")
    case True
    then show ?thesis using t assms(3) by (simp add: devmgr_ack_def decode_json_def)
  next
    case False
    have "str_field api (Some j) ''type'' = Some ''ack''" using False t(2) by simp
    then have e: "\<bar>e\<bar> \<le> 2 ^ 31 - 256" if "data_int api j ''err'' = Some e" for e
      using that assms(2) by (simp add: decode_json_def small_err_def)
    have ck: "ck_int \<bar>e\<bar> = Inr \<bar>e\<bar>" "ck_int (- 256 - \<bar>e\<bar>) = Inr (- 256 - \<bar>e\<bar>)"
      if "\<bar>e\<bar> \<le> 2 ^ 31 - 256" for e :: int
      using that by (auto simp: ck_int_def int_ok_def)
    show ?thesis
    proof (cases "data_int api j ''err''")
      case None
      then show ?thesis using False t assms(3)
        by (simp add: devmgr_ack_def decode_json_def getack_eq [OF assms(1)] ck_int_def int_ok_def)
    next
      case (Some x)
      then show ?thesis using False t assms(3) ck [OF e [OF Some]]
        by (auto simp: devmgr_ack_def decode_json_def getack_eq [OF assms(1)])
    qed
  qed
qed

lemma str_field_frame:
  assumes "cjson_ok api" and "f = cJSON_GetItem api (Some d) name"
  shows "str_field api (Some d) name =
    (if cJSON_IsString api f then valuestring api (the f) else None)"
  using cjson_okD(1) [OF assms(1)] by (cases f) (auto simp: str_field_def assms(2))

lemma str_field_length:
  assumes "cjson_ok api" and "str_field api obj name = Some t"
  shows "length t < 2 ^ 31 \<and> NUL \<notin> set t"
proof -
  from assms(2) obtain i where "cJSON_IsString api (Some i)" "valuestring api i = Some t"
    by (cases "cJSON_GetItem api obj name")
       (auto simp: str_field_def Let_def split: if_splits)
  then show ?thesis using cjson_okD(4) [OF assms(1), of i] by auto
qed

lemma rx_frame_length: "cjson_ok api \<Longrightarrow> rx_frame api j = Some t \<Longrightarrow> length t < 2 ^ 31 \<and> NUL \<notin> set t"
  using str_field_length by (fastforce simp: rx_frame_def split: option.splits if_splits)

lemma getframe_rx:
  assumes "cjson_ok api"
  shows "\<exists>fr q. sub_json_getframe api (Some j) (Some None) (Some 0) =
      Inr (case data_int api j ''sid'' of None \<Rightarrow> -1 | Some n \<Rightarrow> n, Some fr, Some q)
    \<and> rx_frame api j = (if q = 0 \<and> fr \<noteq> None \<and> cJSON_IsString api fr
                        then valuestring api (the fr) else None)"
proof (cases "data_field api j")
  case None
  then show ?thesis
    by (simp add: getframe_eq [OF assms] data_int_def rx_frame_def)
next
  case (Some d)
  show ?thesis
  proof (cases "int_field api (Some d) ''sid''")
    case None
    with Some show ?thesis
      by (simp add: getframe_eq [OF assms] data_int_def rx_frame_def)
  next
    case (Some n)
    then show ?thesis using \<open>data_field api j = Some d\<close> cjson_okD(1) [OF assms]
      by (auto simp: getframe_eq [OF assms] data_int_def rx_frame_def str_field_frame [OF assms refl]
          split: option.splits)
  qed
qed

lemma devmgr_rxstat_refines:
  assumes "cjson_ok api" and rep: "rep (Wait_rx s) m"
    and dst: "0 < dstmax" "dstmax < 2 ^ 31" "dstmax \<le> length (dm_dst m)"
  shows "\<exists>r. devmgr_rxstat api dstmax j m = Inr r
    \<and> realises dstmax m (proto (Wait_rx s) (decode_json api j)) r"
proof -
  obtain t where t: "sub_json_gettype api (Some j) ''rxstat'' = Inr t"
    "t \<noteq> None \<longleftrightarrow> str_field api (Some j) ''type'' = Some ''rxstat''"
    using gettype_eq [OF assms(1)] by blast
  show ?thesis
  proof (cases "t = None")
    case True
    then show ?thesis using t rep by (simp add: devmgr_rxstat_def decode_json_def)
  next
    case False
    obtain fr q where g: "sub_json_getframe api (Some j) (Some None) (Some 0) =
        Inr (case data_int api j ''sid'' of None \<Rightarrow> -1 | Some n \<Rightarrow> n, Some fr, Some q)"
      and rx: "rx_frame api j = (if q = 0 \<and> fr \<noteq> None \<and> cJSON_IsString api fr
                        then valuestring api (the fr) else None)"
      using getframe_rx [OF assms(1)] by blast
    from False t have dj: "decode_json api j = M_rxstat
        (word_of_int (case data_int api j ''sid'' of None \<Rightarrow> -1 | Some n \<Rightarrow> n)) (rx_frame api j)"
      by (simp add: decode_json_def)
    show ?thesis
    proof (cases "rx_frame api j")
      case None
      then have "q \<noteq> 0 \<or> fr = None \<or> \<not> cJSON_IsString api fr \<or> valuestring api (the fr) = None"
        using rx by (auto split: if_splits)
      with False t g dj None rep show ?thesis
        by (auto simp: devmgr_rxstat_def Let_def)
    next
      case (Some tx)
      then have "q = 0" "fr \<noteq> None" "cJSON_IsString api fr" "valuestring api (the fr) = Some tx"
        using rx by (auto split: if_splits)
      moreover have "length tx < 2 ^ 31" using rx_frame_length [OF assms(1) Some] by simp
      ultimately show ?thesis using False t g dj Some rep dst
        by (auto simp: devmgr_rxstat_def devmgr_copy_eq)
    qed
  qed
qed

lemma devmgr_message_ok:
  assumes "cjson_ok api" and "small_err (decode_json api j)" and "rep p m"
    and "0 < dstmax" and "dstmax < 2 ^ 31" and "dstmax \<le> length (dm_dst m)"
  shows "\<exists>r. devmgr_message api dstmax j m = Inr r \<and> realises dstmax m (proto p (decode_json api j)) r"
proof (cases p)
  case Wait_ack
  with assms devmgr_ack_refines [of api j m] show ?thesis by (simp add: devmgr_message_def)
next
  case (Wait_rx s)
  with assms devmgr_rxstat_refines [of api s m dstmax j] show ?thesis
    by (simp add: devmgr_message_def)
qed

text \<open>C11: the code implements the protocol on every message but the acknowledgements with an
  error code beyond \<open>2 ^ 31 - 256\<close> in magnitude (for those the code overflows,
  \<open>devmgr_message_overflow\<close>): with a JSON library that behaves as documented, in either phase and
  for a destination of the stated size, the handling of the message runs into no undefined
  behaviour, and its result, the next state and the bytes copied to the destination are those
  the abstract machine gives for the decoded message.\<close>

theorem devmgr_message_refines:
  assumes "cjson_ok api" and "small_err (decode_json api j)" and "rep p m"
    and "0 < dstmax" and "dstmax < 2 ^ 31" and "dstmax \<le> length (dm_dst m)"
  shows "\<exists>r. devmgr_message api dstmax j m = Inr r \<and> realises dstmax m (proto p (decode_json api j)) r"
  by (rule devmgr_message_ok [OF assms])

text \<open>
  A small JSON library for concrete runs: values are strings, numbers and objects, and a text is
  parsed by a table. It behaves as documented: a string is NUL-free and its length fits an
  \<open>int\<close>, and a number outside the range of \<open>int\<close> is given as the nearest \<open>int\<close>.
\<close>

datatype jv = J_str "byte list" | J_num int | J_obj "(byte list \<times> jv) list"

fun jv_item :: "jv option \<Rightarrow> byte list \<Rightarrow> jv option" where
  "jv_item (Some (J_obj kvs)) k = map_of kvs k"
| "jv_item _ k = None"

fun jv_string :: "jv \<Rightarrow> byte list option" where
  "jv_string (J_str s) = Some s"
| "jv_string _ = None"

fun jv_int :: "jv \<Rightarrow> int" where
  "jv_int (J_num n) = max (- (2 ^ 31)) (min (2 ^ 31 - 1) n)"
| "jv_int _ = 0"

fun jv_is_string :: "jv option \<Rightarrow> bool" where
  "jv_is_string (Some (J_str s)) = (NUL \<notin> set s \<and> length s < 2 ^ 31)"
| "jv_is_string _ = False"

fun jv_is_number :: "jv option \<Rightarrow> bool" where
  "jv_is_number (Some (J_num n)) = True"
| "jv_is_number _ = False"

fun jv_is_object :: "jv option \<Rightarrow> bool" where
  "jv_is_object (Some (J_obj kvs)) = True"
| "jv_is_object _ = False"

definition jv_cjson :: "(byte list \<times> jv) list \<Rightarrow> jv cjson" where
  "jv_cjson tbl = \<lparr>cJSON_Parse = map_of tbl, cJSON_GetItem = jv_item, cJSON_IsString = jv_is_string,
     cJSON_IsNumber = jv_is_number, cJSON_IsObject = jv_is_object, valuestring = jv_string,
     valueint = jv_int\<rparr>"

lemma jv_cjson_sel [simp]:
  "cJSON_Parse (jv_cjson tbl) = map_of tbl" "cJSON_GetItem (jv_cjson tbl) = jv_item"
  "cJSON_IsString (jv_cjson tbl) = jv_is_string" "cJSON_IsNumber (jv_cjson tbl) = jv_is_number"
  "cJSON_IsObject (jv_cjson tbl) = jv_is_object" "valuestring (jv_cjson tbl) = jv_string"
  "valueint (jv_cjson tbl) = jv_int"
  by (simp_all add: jv_cjson_def)

lemma jv_cjson_ok [simp]: "cjson_ok (jv_cjson tbl)"
proof -
  have i: "int_ok (jv_int j)" for j by (cases j) (auto simp: int_ok_def)
  have s: "jv_is_string (Some j) \<Longrightarrow> \<exists>t. jv_string j = Some t \<and> NUL \<notin> set t \<and> length t < 2 ^ 31" for j
    by (cases j) auto
  have "\<not> jv_is_string (Some j) \<or> (\<exists>t. jv_string j = Some t \<and> NUL \<notin> set t \<and> length t < 2 ^ 31)" for j
    using s [of j] by blast
  with i show ?thesis by (simp add: cjson_ok_def)
qed

definition jv_ack :: "int \<Rightarrow> int \<Rightarrow> jv" where
  "jv_ack e s = J_obj [(''type'', J_str ''ack''), (''data'', J_obj [(''err'', J_num e), (''sid'', J_num s)])]"

definition jv_rxstat :: "int \<Rightarrow> int \<Rightarrow> byte list \<Rightarrow> jv" where
  "jv_rxstat s q t = J_obj [(''type'', J_str ''rxstat''),
     (''data'', J_obj [(''sid'', J_num s), (''qual'', J_num q), (''frame'', J_str t)])]"

lemmas decode_defs = decode_json_def str_field_def int_field_def data_field_def data_int_def ack_sid_def
  rx_frame_def Let_def

lemma decode_ack:
  "\<bar>e\<bar> \<le> 2 ^ 31 - 256 \<Longrightarrow> \<bar>s\<bar> \<le> 2 ^ 31 - 256 \<Longrightarrow>
     decode_json (jv_cjson tbl) (jv_ack e s) = M_ack e (word_of_int s)"
  by (simp add: decode_defs jv_ack_def)

lemma decode_rxstat:
  "\<bar>s\<bar> \<le> 2 ^ 31 - 256 \<Longrightarrow> \<bar>q\<bar> \<le> 2 ^ 31 - 256 \<Longrightarrow> NUL \<notin> set t \<Longrightarrow> length t < 2 ^ 31 \<Longrightarrow>
     decode_json (jv_cjson tbl) (jv_rxstat s q t) =
       M_rxstat (word_of_int s) (if q = 0 then Some t else None)"
  by (simp add: decode_defs jv_rxstat_def)

text \<open>No text of the table is an acknowledgement whose error code overflows.\<close>

definition mild_table :: "(byte list \<times> jv) list \<Rightarrow> bool" where
  "mild_table tbl \<longleftrightarrow> list_all (\<lambda>(t, j). small_err (decode_json (jv_cjson tbl) j)) tbl"

lemma mild_tableD:
  assumes "mild_table tbl"
  shows "mild (jv_cjson tbl) f" "mild_env (jv_cjson tbl) S"
proof -
  have m: "mild (jv_cjson tbl) f" for f
    using assms by (auto simp: mild_def decode_def mild_table_def small_err_def list_all_iff
        dest!: map_of_SomeD split: option.splits)
  then show "mild (jv_cjson tbl) f" "mild_env (jv_cjson tbl) S"
    by (auto simp: mild_env_def list_all_iff)
qed

theorem devmgr_message_refines_witness:
  "\<exists>r. devmgr_message (jv_cjson []) 4 (jv_rxstat 7 0 ''hello'')
         \<lparr>dm_state = 1, dm_sid = 7, dm_timeout = 500, dm_dst = ''........'', dm_dout = []\<rparr> = Inr r
     \<and> fst r = 3 \<and> take 4 (dm_dst (snd (snd r))) = ''hell''"
proof -
  let ?m = "\<lparr>dm_state = 1, dm_sid = 7, dm_timeout = 500, dm_dst = ''........'', dm_dout = []\<rparr>"
  have "rep (Wait_rx 7) ?m" by simp
  moreover have "small_err (decode_json (jv_cjson []) (jv_rxstat 7 0 ''hello''))"
    by (simp add: decode_rxstat small_err_def)
  ultimately have "\<exists>r. devmgr_message (jv_cjson []) 4 (jv_rxstat 7 0 ''hello'') ?m = Inr r
      \<and> realises 4 ?m (proto (Wait_rx 7) (decode_json (jv_cjson []) (jv_rxstat 7 0 ''hello''))) r"
    by (intro devmgr_message_refines) simp_all
  then
  obtain r where "devmgr_message (jv_cjson []) 4 (jv_rxstat 7 0 ''hello'') ?m = Inr r"
    and "realises 4 ?m (Deliver ''hello'') r" by (auto simp: decode_rxstat)
  then show ?thesis by (cases r) (auto simp: copied_def)
qed

section \<open>Refinement of one round\<close>

definition verdict_of :: "'j cjson \<Rightarrow> phase \<Rightarrow> byte list option \<Rightarrow> verdict" where
  "verdict_of api p line =
     (case line of None \<Rightarrow> Retry | Some f \<Rightarrow> proto p (decode api (butlast f)))"

text \<open>How control goes on after a verdict, given what the time check leaves of the budget
  (\<open>None\<close> when the clock fails).\<close>

fun next_of :: "nat \<Rightarrow> verdict \<Rightarrow> int option \<Rightarrow> dm_next" where
  "next_of dstmax (Stop e) b = Finish e"
| "next_of dstmax (Deliver t) b = Finish (int (copied t dstmax))"
| "next_of dstmax (Stay p) b =
     (case b of None \<Rightarrow> Finish (-5) | Some g \<Rightarrow> if g \<le> 0 then Finish (-1) else Again)"
| "next_of dstmax Retry b =
     (case b of None \<Rightarrow> Finish (-5) | Some g \<Rightarrow> if g \<le> 0 then Finish (-4) else Resend)"

fun final :: "verdict \<Rightarrow> bool" where
  "final (Stop e) = True" | "final (Deliver t) = True"
| "final (Stay p) = False" | "final Retry = False"

fun copied_to :: "nat \<Rightarrow> verdict \<Rightarrow> byte list \<Rightarrow> byte list" where
  "copied_to dstmax (Deliver t) dst =
     take (Suc (copied t dstmax)) (t @ [NUL]) @ drop (Suc (copied t dstmax)) dst"
| "copied_to dstmax _ dst = dst"

text \<open>What a round prints: every line received, without its terminator and with a newline.\<close>

definition shown :: "bool \<Rightarrow> int \<Rightarrow> byte list option \<Rightarrow> byte list" where
  "shown v t line =
     (case line of
        None \<Rightarrow> if v then E_RED @ ''ERR: '' @ E_NRM @ ''sp_read() timeout in cmd_devmgr(): '' @ dec_int t
                        @ '' ms'' @ [LF] else []
      | Some f \<Rightarrow> (if v then E_GRN @ ''['' @ dec_nat (length f) @ '']>> '' @ E_NRM else [])
                  @ butlast f @ [LF])"

definition line_in :: "byte list option \<Rightarrow> int \<Rightarrow> byte list \<Rightarrow> bool" where
  "line_in line rc dout \<longleftrightarrow>
     (case line of None \<Rightarrow> rc = 0
      | Some f \<Rightarrow> frame_ok f \<and> rc = int (length f) \<and> take (length f) dout = f)"

definition dm_ok :: "nat \<Rightarrow> dm \<Rightarrow> bool" where
  "dm_ok dstmax m \<longleftrightarrow>
     length (dm_dout m) = 1024 \<and> 0 < dstmax \<and> dstmax < 2 ^ 31 \<and> dstmax \<le> length (dm_dst m)"

lemma frame_split: "frame_ok f \<Longrightarrow> f = butlast f @ [NUL] \<and> NUL \<notin> set (butlast f)"
  by (metis append_butlast_last_id frame_ok_def)

lemma frame_cstring:
  assumes "frame_ok f" and "take (length f) dout = f"
  shows "cstring dout = Inr (butlast f)" "takeWhile (\<lambda>c. c \<noteq> NUL) (take (length f) dout) = butlast f"
proof -
  have f: "f = butlast f @ [NUL]" "NUL \<notin> set (butlast f)" using frame_split [OF assms(1)] by auto
  have "dout = f @ drop (length f) dout" by (metis append_take_drop_id assms(2))
  then have "dout = butlast f @ NUL # drop (length f) dout"
    using f(1) by (metis append.assoc append_Cons append_Nil)
  then show "cstring dout = Inr (butlast f)" using cstring_append [OF f(2)] by metis
  have "takeWhile (\<lambda>c. c \<noteq> NUL) (butlast f @ [NUL]) = butlast f"
    using f(2) by (subst takeWhile_append2) auto
  then show "takeWhile (\<lambda>c. c \<noteq> NUL) (take (length f) dout) = butlast f"
    using f(1) assms(2) by metis
qed

lemma realises_dst: "realises dstmax m v (rc, term, m') \<Longrightarrow> dm_dst m' = copied_to dstmax v (dm_dst m)"
  by (cases v) auto

lemma devmgr_received_refines:
  assumes api: "cjson_ok api" "pred_option (mild api) line" and "rep p m" and m: "dm_ok dstmax m"
    and o: "opts E = Some c" and line: "line_in line rc (dm_dout m)"
  shows "\<exists>rc' term m'. devmgr_received E api t dstmax rc m w =
      Inr (rc', term, m', emit (shown (verbose_on c) t line) w)
    \<and> realises dstmax m (verdict_of api p line) (rc', term, m')"
proof (cases line)
  case None
  then show ?thesis using o line
    by (auto simp: devmgr_received_def line_in_def ERR_PRINTF_def cliopt_isverbose_def shown_def
        verdict_of_def emit_def)
next
  case (Some f)
  then have f: "frame_ok f" "rc = int (length f)" "take (length f) (dm_dout m) = f"
    using line by (auto simp: line_in_def)
  have pos: "\<not> rc \<le> 0" using f frame_okD [OF f(1)] by simp
  have tx: "cstring (dm_dout m) = Inr (butlast f)"
    "takeWhile (\<lambda>c. c \<noteq> NUL) (take (length f) (dm_dout m)) = butlast f"
    using frame_cstring [OF f(1,3)] by auto
  have sh: "emit (shown (verbose_on c) t line) w =
     emit (butlast f @ [LF]) (if verbose_on c
       then emit (E_GRN @ ''['' @ dec_nat (length f) @ '']>> '' @ E_NRM) w else w)"
    using Some by (simp add: shown_def emit_def)
  show ?thesis
  proof (cases "cJSON_Parse api (butlast f)")
    case None
    then show ?thesis using Some f(2) pos tx o \<open>rep p m\<close> unfolding sh
      by (cases p) (auto simp: devmgr_received_def cliopt_isverbose_def verdict_of_def decode_def Let_def)
  next
    case (Some j)
    obtain r where "devmgr_message api dstmax j m = Inr r"
      "realises dstmax m (proto p (decode_json api j)) r"
      using devmgr_message_ok [OF api(1) _ \<open>rep p m\<close>, of j dstmax] m api(2) \<open>line = Some f\<close> Some
      unfolding dm_ok_def by (auto simp: mild_def decode_def)
    then show ?thesis using \<open>line = Some f\<close> Some f(2) pos tx o unfolding sh
      by (cases r) (auto simp: devmgr_received_def cliopt_isverbose_def verdict_of_def decode_def Let_def)
  qed
qed

text \<open>The world after a round that began with a read: the line is printed, and the clock is
  consulted unless the exchange is over.\<close>

definition after_round :: "bool \<Rightarrow> int \<Rightarrow> verdict \<Rightarrow> byte list option \<Rightarrow> world \<Rightarrow> world" where
  "after_round verb t v line w =
     (let w = emit (shown verb t line) w in
      if final v then w else w\<lparr>n_clock := Suc (n_clock w)\<rparr>)"

definition budget_left :: "env \<Rightarrow> timespec \<Rightarrow> dm \<Rightarrow> world \<Rightarrow> int option" where
  "budget_left E ref m w =
     map_option (\<lambda>now. to_int (dm_timeout m - elapsed_ms (diff_timespec ref now))) (os_clock E (n_clock w))"

lemma n_clock_emit [simp]: "n_clock (emit s w) = n_clock w"
  by (simp add: emit_def)

lemma rep_cong: "dm_state m' = dm_state m \<Longrightarrow> dm_sid m' = dm_sid m \<Longrightarrow> rep p m' = rep p m"
  by (cases p) auto

lemma devmgr_iter_eq:
  assumes api: "cjson_ok api" "pred_option (mild api) line" and "rep p m" and m: "dm_ok dstmax m"
    and o: "opts E = Some c"
    and rd: "sp_read (os_sp E) reader (Some (dm_dout m)) 1024 (to_size t) w = Inr (rc, Some dout, w1)"
    and line: "line_in line rc dout" and len: "length dout = 1024"
  defines "v \<equiv> verdict_of api p line"
  shows "\<exists>m'. devmgr_iter E api reader t ref dstmax m w =
      Inr (next_of dstmax v (budget_left E ref m w1), m', after_round (verbose_on c) t v line w1)
    \<and> dm_ok dstmax m' \<and> dm_dst m' = copied_to dstmax v (dm_dst m)
    \<and> (final v \<or> dm_timeout m' = (case budget_left E ref m w1 of None \<Rightarrow> dm_timeout m | Some g \<Rightarrow> g))
    \<and> (case v of Stay p' \<Rightarrow> rep p' m' | _ \<Rightarrow> True)"
proof -
  let ?m = "m\<lparr>dm_dout := dout\<rparr>"
  have m1: "dm_ok dstmax ?m" "rep p ?m" "line_in line rc (dm_dout ?m)"
    using m len \<open>rep p m\<close> line rep_cong [of ?m m p] by (auto simp: dm_ok_def)
  from devmgr_received_refines [where w = w1 and t = t, OF api m1(2,1) o m1(3)]
  obtain rc' trm m' where rcv: "devmgr_received E api t dstmax rc ?m w1 =
      Inr (rc', trm, m', emit (shown (verbose_on c) t line) w1)"
    and r: "realises dstmax ?m v (rc', trm, m')" unfolding v_def by blast
  have it: "devmgr_iter E api reader t ref dstmax m w =
     (if trm \<or> rc' \<ge> 0 then Inr (Finish rc', m', emit (shown (verbose_on c) t line) w1)
      else case os_clock E (n_clock w1) of
          None \<Rightarrow> Inr (Finish (-5), m', (emit (shown (verbose_on c) t line) w1)\<lparr>n_clock := Suc (n_clock w1)\<rparr>)
        | Some now \<Rightarrow>
            (let w = (emit (shown (verbose_on c) t line) w1)\<lparr>n_clock := Suc (n_clock w1)\<rparr>;
                 m = m'\<lparr>dm_timeout := to_int (dm_timeout m' - elapsed_ms (diff_timespec ref now))\<rparr>
             in if dm_timeout m \<le> 0 then Inr (Finish rc', m, w)
                else if rc' = -4 then Inr (Resend, m, w) else Inr (Again, m, w)))"
    using rd rcv by (simp add: devmgr_iter_def Let_def split: option.splits)
  have k: "kept ?m m'" using r by (cases v) auto
  have ok: "dm_ok dstmax m'" using k realises_dst [OF r] m len
    by (cases v) (auto simp: dm_ok_def kept_def copied_def)
  have ok2: "dm_ok dstmax (m'\<lparr>dm_timeout := g\<rparr>)" for g using ok by (simp add: dm_ok_def)
  have rp: "rep q (m'\<lparr>dm_timeout := g\<rparr>) = rep q m'" for q g by (cases q) auto
  show ?thesis
  proof (cases "os_clock E (n_clock w1)")
    case None
    then show ?thesis using it r k ok
      by (cases v) (auto simp: after_round_def budget_left_def kept_def Let_def)
  next
    case (Some now)
    then show ?thesis using it r k ok ok2 rp
      by (cases v) (auto simp: after_round_def budget_left_def kept_def Let_def)
  qed
qed

end
