(* ===== verification/Devmgr_Run.thy ===== *)
theory Devmgr_Run
  imports Devmgr_Spec "HOL-Library.Sublist"
begin

text \<open>
  Whole exchanges of the device manager command: safety, termination and release of the reader
  for every peer, and the result of an exchange as a run of the abstract protocol.
\<close>

section \<open>Safety and termination\<close>

text \<open>
  What is asked of the monotonic clock: it does not run backwards, an exchange takes less than
  what an \<open>int\<close> of milliseconds can hold (24 days), and only so many readings fall into the first
  millisecond. \<open>elapsed_ok E ref lag lo hi\<close> says so of the readings from the \<open>lo\<close>-th up to the
  \<open>hi\<close>-th, as far as they succeed: those from the \<open>lag\<close>-th on are at least a millisecond after
  \<open>ref\<close>, the earlier ones may be in the same millisecond.
\<close>

definition elapsed_ok :: "env \<Rightarrow> timespec \<Rightarrow> nat \<Rightarrow> nat \<Rightarrow> nat \<Rightarrow> bool" where
  "elapsed_ok E ref lag lo hi \<longleftrightarrow> (\<forall>i. lo \<le> i \<and> i < hi \<longrightarrow> pred_option (\<lambda>now.
     let el = elapsed_ms (diff_timespec ref now) in
     0 \<le> el \<and> el < 2 ^ 31 \<and> (lag \<le> i \<longrightarrow> 1 \<le> el)) (os_clock E i))"

lemma elapsed_ok_mono: "elapsed_ok E ref lag lo hi \<Longrightarrow> lo \<le> lo' \<Longrightarrow> elapsed_ok E ref lag lo' hi"
  by (auto simp: elapsed_ok_def)

lemma elapsed_okD:
  assumes "elapsed_ok E ref lag lo hi" and "lo \<le> i" and "i < hi" and "os_clock E i = Some now"
  shows "0 \<le> elapsed_ms (diff_timespec ref now)" "elapsed_ms (diff_timespec ref now) < 2 ^ 31"
    "lag \<le> i \<Longrightarrow> 1 \<le> elapsed_ms (diff_timespec ref now)"
  using assms by (auto simp: elapsed_ok_def Let_def)

text \<open>
  The distance of the loop from its end: the readings that may still fall into the first
  millisecond, and the budget. A round that goes on reads the clock once and lowers it.
\<close>

definition rank :: "nat \<Rightarrow> dm \<Rightarrow> world \<Rightarrow> nat" where
  "rank lag m w = (lag - n_clock w) + nat (dm_timeout m)"

lemma rank_less:
  assumes "n_clock w' = Suc (n_clock w)" and "0 < dm_timeout m'" and "dm_timeout m' = dm_timeout m - el"
    and "0 \<le> el" and "lag \<le> n_clock w \<Longrightarrow> 1 \<le> el"
  shows "rank lag m' w' < rank lag m w"
  using assms by (cases "lag \<le> n_clock w") (auto simp: rank_def)

definition live_reader :: "nat \<Rightarrow> world \<Rightarrow> bool" where
  "live_reader a w \<longleftrightarrow> wf_idle w \<and> readers (item w) = 1 \<and> rdr_cells w a \<noteq> None"

lemma wf_world_output [simp]:
  "wf_idle (emit s w) = wf_idle w" "wf_idle (emit_err s w) = wf_idle w"
  "wf_idle (w\<lparr>n_clock := k\<rparr>) = wf_idle w"
  "item (emit s w) = item w" "item (emit_err s w) = item w"
  "rdr_cells (emit s w) = rdr_cells w" "rdr_cells (emit_err s w) = rdr_cells w"
  "n_read (emit s w) = n_read w" "sock_out (emit s w) = sock_out w" "n_write (emit s w) = n_write w"
  by (simp_all add: emit_def emit_err_def wf_idle_def wf_world_def)

lemma live_reader_after [simp]:
  "live_reader a (after_round v t q line w) = live_reader a w"
  by (simp add: after_round_def live_reader_def Let_def)

lemma n_clock_after: "n_clock w \<le> n_clock (after_round v t q line w)"
  by (simp add: after_round_def Let_def)

text \<open>What a write leaves alone.\<close>

definition wrote_only :: "'a sp_world_scheme \<Rightarrow> 'a sp_world_scheme \<Rightarrow> bool" where
  "wrote_only w w' \<longleftrightarrow>
     item w' = item w \<and> rdr_cells w' = rdr_cells w \<and> rdr_next w' = rdr_next w
     \<and> n_read w' = n_read w \<and> n_alloc w' = n_alloc w \<and> sp_world.more w' = sp_world.more w"

lemma sendcmd_ok:
  fixes w :: "'a sp_world_scheme"
  assumes "subs (item w) = 0" and "n \<le> length src" and "calls_return E"
  shows "\<exists>rc w'. sp_sendcmd E SP_ITEM (Some src) n w = Inr (rc, w') \<and> wrote_only w w'"
proof -
  obtain r1 where "os_write E (n_write w) (take n src) = Some r1" using calls_return_write [OF assms(3)] .
  moreover obtain r2 where "os_write E (Suc (n_write w)) [LF] = Some r2" using calls_return_write [OF assms(3)] .
  ultimately show ?thesis using assms
    by (cases "n = 0") (auto simp: sp_sendcmd_def sub_write_def sp_oswrite_def wrote_only_def)
qed

lemma wrote_only_world:
  fixes w w' :: world
  assumes "wrote_only w w'"
  shows "out w' = out w" "err w' = err w" "n_clock w' = n_clock w"
  using assms by (cases w; cases w'; simp add: wrote_only_def)+

lemma wrote_only_live: "wrote_only w w' \<Longrightarrow> live_reader a w \<Longrightarrow> live_reader a w'"
  by (simp add: live_reader_def wf_idle_def wf_world_def wrote_only_def)

lemma to_size_id: "0 \<le> i \<Longrightarrow> i < 2 ^ 64 \<Longrightarrow> to_size i = nat i"
  by (simp add: to_size_def)

lemma wf_idle_subs: "wf_idle w \<Longrightarrow> subs (item w) = 0"
  by (simp add: wf_idle_def wf_world_def wf_item_def)

lemma same_rest_world:
  fixes w w' :: world
  assumes "same_rest w w'"
  shows "out w' = out w" "err w' = err w" "n_clock w' = n_clock w"
  using assms by (cases w; cases w'; simp add: same_rest_def)+

lemma outcome_line_in:
  fixes w :: "'a sp_world_scheme"
  assumes "wf_idle w" and "env_ok E" and "length buf = 1024"
    and "line = read_outcome (os_event E (n_read w)) t a w"
  shows "line_in line (case line of None \<Rightarrow> 0 | Some f \<Rightarrow> int (length f))
      (case line of None \<Rightarrow> buf | Some f \<Rightarrow> f @ drop (length f) buf)"
    "length (case line of None \<Rightarrow> buf | Some f \<Rightarrow> f @ drop (length f) buf) = 1024"
proof -
  have f: "frame_ok f" if "line = Some f" for f
    using read_outcome_frame_ok [OF assms(1,2) refl] that assms(4) by simp
  show "line_in line (case line of None \<Rightarrow> 0 | Some f \<Rightarrow> int (length f))
      (case line of None \<Rightarrow> buf | Some f \<Rightarrow> f @ drop (length f) buf)"
    "length (case line of None \<Rightarrow> buf | Some f \<Rightarrow> f @ drop (length f) buf) = 1024"
    using assms(3) f frame_okD by (auto simp: line_in_def split: option.splits)
qed

section \<open>The lines a reader gets\<close>

text \<open>The line on the buffer, when the reader has not seen it; the line a read returned.\<close>

definition carry :: "nat \<Rightarrow> 'a sp_world_scheme \<Rightarrow> byte list list" where
  "carry a w = (if unread w a then [current_line (item w)] else [])"

definition heard :: "byte list option \<Rightarrow> byte list list" where
  "heard o' = (case o' of None \<Rightarrow> [] | Some f \<Rightarrow> [f])"

lemma heard_simps [simp]: "heard None = []" "heard (Some f) = [f]"
  by (simp_all add: heard_def)

lemma publishes_of_event: "subseq (read_publishes ev t a w) (ev_lines ev)"
  by (auto simp: read_publishes_def ev_lines_def wait_publishes_def Let_def
      intro: list_emb_append_mono split: option.splits)

lemma last_in_subseq: "xs \<noteq> [] \<Longrightarrow> subseq [last (y # xs)] (ys @ xs)"
  by (simp add: subseq_singleton_left)

lemma carry_cong: "item w' = item w \<Longrightarrow> rdr_cells w' = rdr_cells w \<Longrightarrow> carry a w' = carry a w"
  by (simp add: carry_def unread_def)

text \<open>One read: what it returns and what it leaves unseen is, in order, from what was unseen and what
  was published.\<close>

lemma read_order:
  fixes w :: world
  assumes w: "live_reader a w" and env: "env_ok (os_sp E)" and buf: "length buf = 1024"
  shows "\<exists>rc dout w1 line. sp_read (os_sp E) (Some a) (Some buf) 1024 t w = Inr (rc, Some dout, w1)
    \<and> line_in line rc dout \<and> length dout = 1024 \<and> live_reader a w1
    \<and> n_read w1 = Suc (n_read w) \<and> n_clock w1 = n_clock w \<and> out w1 = out w \<and> sock_out w1 = sock_out w
    \<and> subseq (heard line @ carry a w1) (carry a w @ ev_lines (os_event (os_sp E) (n_read w)))"
proof -
  define ev where "ev = os_event (os_sp E) (n_read w)"
  define line where "line = read_outcome ev t a w"
  define ps where "ps = read_publishes ev t a w"
  from w obtain r where wf: "wf_idle w" and r: "rdr_cells w a = Some r" "readers (item w) = 1"
    by (auto simp: live_reader_def)
  from sp_read_eq [OF wf env r(1) buf, of t, folded ev_def, folded line_def ps_def]
  obtain w' r' where
    rd: "sp_read (os_sp E) (Some a) (Some buf) 1024 t w =
      Inr (case line of None \<Rightarrow> 0 | Some f \<Rightarrow> int (length f),
           Some (case line of None \<Rightarrow> buf | Some f \<Rightarrow> f @ drop (length f) buf), w')"
    and w': "wf_idle w'" "same_rest w w'" "n_read w' = Suc (n_read w)"
      "rdr_cells w' = (rdr_cells w)(a \<mapsto> r')"
    and lr: "last_read r' = (if line \<noteq> None then read_id (item w')
                        else if ev_lock ev then read_id (item w) + of_nat (length (ev_before ev))
                        else last_read r)"
    and rid: "read_id (item w') = read_id (item w) + of_nat (length ps)"
    and cl: "current_line (item w') = last (current_line (item w) # ps)" by blast
  have sub: "subseq ps (ev_lines ev)" unfolding ps_def by (rule publishes_of_event)
  have "subseq (heard line @ carry a w') (carry a w @ ps)"
  proof (cases line)
    case None
    show ?thesis
    proof (cases "ps = []")
      case True
      then have "ev_before ev = []"
        by (auto simp: ps_def read_publishes_def Let_def split: if_splits)
      with True None lr rid cl have "carry a w' = [] \<or> carry a w' = carry a w"
        using w'(4) r(1) by (auto simp: carry_def unread_def)
      with None show ?thesis by auto
    next
      case False
      with cl last_in_subseq [OF this, of "current_line (item w)" "carry a w"] None show ?thesis
        by (auto simp: carry_def)
    qed
  next
    case (Some f)
    then have c: "carry a w' = []" using lr w'(4) by (simp add: carry_def unread_def)
    have f: "f = last (current_line (item w) # ps) \<and> (ps = [] \<longrightarrow> unread w a)"
      using Some by (auto simp: line_def ps_def read_outcome_def read_publishes_def wait_publishes_def
          current_line_fold Let_def split: if_splits)
    show ?thesis
    proof (cases "ps = []")
      case True
      with f have "carry a w = [f]" by (simp add: carry_def)
      with Some c show ?thesis by simp
    next
      case False
      with last_in_subseq [OF this, of "current_line (item w)" "carry a w"] Some c f show ?thesis by simp
    qed
  qed
  then have ord: "subseq (heard line @ carry a w') (carry a w @ ev_lines ev)"
    using sub by (meson list_emb_append_mono subseq_order.refl subseq_order.trans)
  note outcome_line_in [OF wf env buf line_def [unfolded ev_def]]
  moreover have "live_reader a w'" using w' r by (auto simp: live_reader_def same_rest_def)
  ultimately show ?thesis
    using rd w'(2,3) same_rest_world [OF w'(2)] ord by (auto simp: same_rest_def ev_def)
qed

lemma live_after [simp]:
  "carry a (after_round b t v line w) = carry a w"
  by (rule carry_cong) (simp_all add: after_round_def Let_def emit_def)

text \<open>A line that is heard was published, and so was the line that is left.\<close>

lemma heard_mild:
  assumes "subseq (heard line @ carry a w1) (carry a w @ ev_lines (os_event S i))"
    and "list_all (mild api) (carry a w)" and "mild_env api S"
  shows "pred_option (mild api) line" "list_all (mild api) (carry a w1)"
proof -
  have "set (heard line @ carry a w1) \<subseteq> set (carry a w @ ev_lines (os_event S i))"
    using assms(1) by (auto elim: list_emb_set)
  then show "pred_option (mild api) line" "list_all (mild api) (carry a w1)"
    using assms(2,3) by (cases line; fastforce simp: mild_env_def list_all_iff)+
qed

lemma devmgr_send_ok:
  assumes "live_reader a w" and "0 \<le> inbytes" and "inbytes < 2 ^ 31" and "nat inbytes \<le> length src"
    and ret: "calls_return (os_sp E)"
  shows "\<exists>n m' w'. devmgr_send E SP_ITEM src inbytes m w = Inr (n, m', w')
    \<and> (n = Finish (-6) \<and> m' = m \<or> n = Again \<and> m' = m\<lparr>dm_state := 0, dm_sid := -1\<rparr>)
    \<and> live_reader a w' \<and> n_clock w' = n_clock w \<and> carry a w' = carry a w"
proof -
  have s: "to_size inbytes = nat inbytes" using assms by (simp add: to_size_id)
  have "subs (item w) = 0" using assms(1) by (simp add: live_reader_def wf_idle_subs)
  from sendcmd_ok [OF this assms(4) ret] obtain rc w'
    where "sp_sendcmd (os_sp E) SP_ITEM (Some src) (nat inbytes) w = Inr (rc, w')"
      and w': "wrote_only w w'" by blast
  moreover have "carry a w' = carry a w" "carry a (emit_err x w') = carry a w" for x
    using w' by (auto intro!: carry_cong simp: wrote_only_def emit_err_def)
  ultimately show ?thesis
    using s wrote_only_live [OF w' assms(1)] wrote_only_world [OF w']
    by (auto simp: devmgr_send_def live_reader_def emit_err_def wf_idle_def wf_world_def)
qed

section \<open>Rounds and the loop\<close>

text \<open>One round from a state with a live reader: no undefined behaviour, the reader stays alive,
  and the loop goes on only with a smaller budget.\<close>

definition round_pre :: "bool \<Rightarrow> dm \<Rightarrow> bool" where
  "round_pre send m \<longleftrightarrow> send \<or> (\<exists>p. rep p m)"

lemma proto_Stop: "proto p msg = Stop e \<Longrightarrow> e \<le> 0"
  by (induction p msg rule: proto.induct) (auto split: if_splits option.splits)

lemma proto_Stop_int: "small_err msg \<Longrightarrow> proto p msg = Stop e \<Longrightarrow> - (2 ^ 31) \<le> e"
  by (cases msg; cases p) (auto simp: small_err_def split: if_splits option.splits)

lemma budget_shrinks:
  "0 \<le> g \<Longrightarrow> g < 2 ^ 31 \<Longrightarrow> 0 \<le> e \<Longrightarrow> e < 2 ^ 31 \<Longrightarrow> to_int (g - e) = g - e"
  by (rule to_int_id) (simp add: int_ok_def)

text \<open>What an iteration and a round leave: the loop goes on only at a lower rank.\<close>

definition goes_safe :: "'j cjson \<Rightarrow> nat \<Rightarrow> nat \<Rightarrow> nat \<Rightarrow> dm \<Rightarrow> world \<Rightarrow> dm_next \<times> dm \<times> world \<Rightarrow> bool" where
  "goes_safe api lag dstmax a m w r \<longleftrightarrow>
     (let (n, m', w') = r in
      live_reader a w' \<and> dm_ok dstmax m' \<and> length (dm_dst m') = length (dm_dst m)
      \<and> list_all (mild api) (carry a w')
      \<and> (case n of Finish rc \<Rightarrow> - (2 ^ 31) \<le> rc \<and> rc < int dstmax
         | _ \<Rightarrow> n_clock w' = Suc (n_clock w) \<and> 0 < dm_timeout m' \<and> dm_timeout m' \<le> dm_timeout m
                \<and> rank lag m' w' < rank lag m w \<and> round_pre (n = Resend) m'))"

lemma devmgr_iter_ok:
  assumes api: "cjson_ok api" "mild_env api (os_sp E)" and rep: "rep p m" and m: "dm_ok dstmax m"
    and o: "opts E = Some c" and env: "env_ok (os_sp E)"
    and w: "live_reader a w" "list_all (mild api) (carry a w)"
    and clk: "elapsed_ok E ref lag (n_clock w) hi" "n_clock w < hi"
    and g: "0 \<le> dm_timeout m" "dm_timeout m < 2 ^ 31"
  shows "\<exists>r. devmgr_iter E api (Some a) t ref dstmax m w = Inr r \<and> goes_safe api lag dstmax a m w r"
proof -
  have len: "length (dm_dout m) = 1024" using m by (simp add: dm_ok_def)
  from read_order [OF w(1) env len] obtain rc dout w1 line
    where rd: "sp_read (os_sp E) (Some a) (Some (dm_dout m)) 1024 (to_size t) w = Inr (rc, Some dout, w1)"
      and w1: "live_reader a w1" "n_clock w1 = n_clock w"
      and line: "length dout = 1024" "line_in line rc dout"
      and ord: "subseq (heard line @ carry a w1) (carry a w @ ev_lines (os_event (os_sp E) (n_read w)))" by blast
  note ml = heard_mild [OF ord w(2) api(2)]
  define v where "v = verdict_of api p line"
  from devmgr_iter_eq [where ref = ref, OF api(1) ml(1) rep m o rd line(2,1)] obtain m'
    where it: "devmgr_iter E api (Some a) t ref dstmax m w =
      Inr (next_of dstmax v (budget_left E ref m w1), m', after_round (verbose_on c) t v line w1)"
      and m': "dm_ok dstmax m'" "dm_dst m' = copied_to dstmax v (dm_dst m)"
      and bud: "final v \<or> dm_timeout m' = (case budget_left E ref m w1 of None \<Rightarrow> dm_timeout m | Some g \<Rightarrow> g)"
      and stay: "case v of Stay p' \<Rightarrow> rep p' m' | _ \<Rightarrow> True"
    unfolding v_def by blast
  have n0: "v = Stop e \<Longrightarrow> e \<le> 0 \<and> - (2 ^ 31) \<le> e" for e
    using proto_Stop [of p _ e] proto_Stop_int [of _ p e] ml(1)
    by (auto simp: v_def verdict_of_def mild_def split: option.splits)
  have n1: "- (2 ^ 31) \<le> rc \<and> rc < int dstmax"
    if "next_of dstmax v (budget_left E ref m w1) = Finish rc" for rc
    using m that n0 by (cases v) (auto simp: dm_ok_def copied_def split: option.splits if_splits)
  have ln: "length (copied_to dstmax v (dm_dst m)) = length (dm_dst m)"
    using m by (cases v) (auto simp: dm_ok_def copied_def)
  let ?w' = "after_round (verbose_on c) t v line w1"
  have lower: "n_clock ?w' = Suc (n_clock w) \<and> dm_timeout m' \<le> dm_timeout m \<and> rank lag m' ?w' < rank lag m w"
    if b: "budget_left E ref m w1 = Some g'" "0 < g'" "\<not> final v" for g'
  proof -
    from b(1) w1(2) obtain now where now: "os_clock E (n_clock w) = Some now"
      and g': "g' = to_int (dm_timeout m - elapsed_ms (diff_timespec ref now))"
      by (auto simp: budget_left_def)
    note el = elapsed_okD [OF clk(1) order.refl clk(2) now]
    have gd: "dm_timeout m' = dm_timeout m - elapsed_ms (diff_timespec ref now)"
      using bud b g' budget_shrinks [OF g el(1,2)] by simp
    have "n_clock ?w' = Suc (n_clock w)" using b(3) w1(2) by (simp add: after_round_def Let_def)
    moreover have "0 < dm_timeout m'" using bud b by simp
    ultimately show ?thesis using gd el rank_less [of ?w' w m' m _ lag] by simp
  qed
  have "goes_safe api lag dstmax a m w (next_of dstmax v (budget_left E ref m w1), m', ?w')"
    using w1 m' bud stay n1 ln lower ml(2)
    by (cases v) (auto simp: goes_safe_def round_pre_def split: option.splits if_splits)
  with it show ?thesis by blast
qed

lemma devmgr_round_ok:
  assumes api: "cjson_ok api" "mild_env api (os_sp E)" and pre: "round_pre send m" and m: "dm_ok dstmax m"
    and o: "opts E = Some c" and env: "env_ok (os_sp E)" "calls_return (os_sp E)"
    and w: "live_reader a w" "list_all (mild api) (carry a w)"
    and clk: "elapsed_ok E ref lag (n_clock w) hi" "n_clock w < hi"
    and g: "0 \<le> dm_timeout m" "dm_timeout m < 2 ^ 31"
    and src: "0 \<le> inbytes" "inbytes < 2 ^ 31" "nat inbytes \<le> length src"
  shows "\<exists>r. devmgr_round E api SP_ITEM (Some a) t ref src inbytes dstmax send m w = Inr r
    \<and> goes_safe api lag dstmax a m w r"
proof (cases send)
  case False
  then obtain p where "rep p m" using pre by (auto simp: round_pre_def)
  from devmgr_iter_ok [where t = t, OF api this m o env(1) w clk g] False show ?thesis
    by (simp add: devmgr_round_def)
next
  case True
  let ?m = "m\<lparr>dm_state := 0, dm_sid := -1\<rparr>"
  have m1: "rep Wait_ack ?m" "dm_ok dstmax ?m" "0 \<le> dm_timeout ?m" "dm_timeout ?m < 2 ^ 31"
    using m g by (auto simp: dm_ok_def)
  from devmgr_send_ok [OF w(1) src env(2), of m] obtain n m' w'
    where snd: "devmgr_send E SP_ITEM src inbytes m w = Inr (n, m', w')"
      and c: "n = Finish (-6) \<and> m' = m \<or> n = Again \<and> m' = ?m"
      and w': "live_reader a w'" "n_clock w' = n_clock w" "carry a w' = carry a w" by blast
  have clk': "elapsed_ok E ref lag (n_clock w') hi" "n_clock w' < hi" "list_all (mild api) (carry a w')"
    using clk w w'(2,3) by simp_all
  from c show ?thesis
  proof
    assume "n = Finish (-6) \<and> m' = m"
    with True snd w' m clk'(3) show ?thesis by (simp add: devmgr_round_def goes_safe_def dm_ok_def)
  next
    assume n: "n = Again \<and> m' = ?m"
    from devmgr_iter_ok [where t = t, OF api m1(1,2) o env(1) w'(1) clk'(3,1,2) m1(3,4)] obtain r where
      r: "devmgr_iter E api (Some a) t ref dstmax ?m w' = Inr r" "goes_safe api lag dstmax a ?m w' r" by blast
    from r(2) have "goes_safe api lag dstmax a m w r"
      using w'(2) by (cases r) (simp add: goes_safe_def rank_def cong: dm_next.case_cong)
    with True snd n r(1) show ?thesis by (simp add: devmgr_round_def)
  qed
qed

lemma devmgr_loop_round:
  "devmgr_loop E api h r t ref src inbytes dstmax send m w =
     (case devmgr_round E api h r t ref src inbytes dstmax send m w of
        Inl e \<Rightarrow> Some (Inl e)
      | Inr (n, m, w) \<Rightarrow>
          (case n of
             Finish rc \<Rightarrow> Some (Inr (rc, m, w))
           | Again \<Rightarrow> devmgr_loop E api h r t ref src inbytes dstmax False m w
           | Resend \<Rightarrow> devmgr_loop E api h r t ref src inbytes dstmax True m w))"
  by (subst devmgr_loop.simps) simp

lemma devmgr_loop_total:
  assumes api: "cjson_ok api" "mild_env api (os_sp E)"
    and o: "opts E = Some c" and env: "env_ok (os_sp E)" "calls_return (os_sp E)"
    and src: "0 \<le> inbytes" "inbytes < 2 ^ 31" "nat inbytes \<le> length src"
  shows "round_pre send m \<Longrightarrow> dm_ok dstmax m \<Longrightarrow> live_reader a w \<Longrightarrow> list_all (mild api) (carry a w) \<Longrightarrow>
      elapsed_ok E ref lag (n_clock w) hi \<Longrightarrow> n_clock w + rank lag m w < hi \<Longrightarrow>
      0 \<le> dm_timeout m \<Longrightarrow> dm_timeout m < 2 ^ 31 \<Longrightarrow>
    \<exists>rc m' w'. devmgr_loop E api SP_ITEM (Some a) t ref src inbytes dstmax send m w
        = Some (Inr (rc, m', w'))
      \<and> live_reader a w' \<and> length (dm_dst m') = length (dm_dst m)
      \<and> - (2 ^ 31) \<le> rc \<and> rc < int dstmax"
proof (induction "rank lag m w" arbitrary: send m w rule: less_induct)
  case less
  have hi: "n_clock w < hi" using less.prems(6) by simp
  from devmgr_round_ok [where t = t, OF api less.prems(1,2) o env less.prems(3-5) hi less.prems(7,8) src]
  obtain n m' w' where
    r: "devmgr_round E api SP_ITEM (Some a) t ref src inbytes dstmax send m w = Inr (n, m', w')"
    and safe: "goes_safe api lag dstmax a m w (n, m', w')" by (metis prod_cases3)
  from safe have w': "live_reader a w'" "dm_ok dstmax m'" "length (dm_dst m') = length (dm_dst m)"
    "list_all (mild api) (carry a w')"
    and n: "case n of Finish rc \<Rightarrow> - (2 ^ 31) \<le> rc \<and> rc < int dstmax
       | _ \<Rightarrow> n_clock w' = Suc (n_clock w) \<and> 0 < dm_timeout m' \<and> dm_timeout m' \<le> dm_timeout m
              \<and> rank lag m' w' < rank lag m w \<and> round_pre (n = Resend) m'"
    by (auto simp: goes_safe_def)
  have go: "\<exists>rc x w''. devmgr_loop E api SP_ITEM (Some a) t ref src inbytes dstmax again m' w' = Some (Inr (rc, x, w''))
      \<and> live_reader a w'' \<and> length (dm_dst x) = length (dm_dst m) \<and> - (2 ^ 31) \<le> rc \<and> rc < int dstmax"
    if nx: "n = (if again then Resend else Again)" for again
  proof -
    have s: "n_clock w' = Suc (n_clock w)" "0 < dm_timeout m'" "dm_timeout m' \<le> dm_timeout m"
      "rank lag m' w' < rank lag m w" "round_pre again m'"
      using n nx by (cases again; simp)+
    have "elapsed_ok E ref lag (n_clock w') hi" by (rule elapsed_ok_mono [OF less.prems(5)]) (simp add: s(1))
    from less.hyps [OF s(4,5) w'(2,1,4) this] s less.prems(6,8) w'(3) show ?thesis by simp
  qed
  show ?case
  proof (cases n)
    case (Finish rc)
    with r w' n show ?thesis by (simp add: devmgr_loop_round)
  next
    case Again
    with go [of False] r show ?thesis by (simp add: devmgr_loop_round [of _ _ _ _ _ _ _ _ _ send m w])
  next
    case Resend
    with go [of True] r show ?thesis by (simp add: devmgr_loop_round [of _ _ _ _ _ _ _ _ _ send m w])
  qed
qed

text \<open>
  The budget of a call in milliseconds and the number of clock readings it can make, when \<open>K\<close> of
  them may fall into the first millisecond. The first clock reading of a call is its time
  reference; \<open>clock_ok\<close> asks what is needed of the readings of one call that begins with the
  \<open>k\<close>-th: a clock that never fails meets it, for every \<open>k\<close>, when no \<open>K + 1\<close> successive readings
  fall into one millisecond and no call takes 24 days.
\<close>

definition call_budget :: "cliopt_t \<Rightarrow> int" where
  "call_budget c = timeout_ms c * tries c + timeout_ms c div 2"

definition readings :: "nat \<Rightarrow> cliopt_t \<Rightarrow> nat" where
  "readings K c = K + nat (call_budget c) + 2"

definition clock_ok :: "env \<Rightarrow> nat \<Rightarrow> cliopt_t \<Rightarrow> nat \<Rightarrow> bool" where
  "clock_ok E K c k \<longleftrightarrow>
     pred_option (\<lambda>ref. elapsed_ok E ref (Suc k + K) (Suc k) (k + readings K c)) (os_clock E k)"

definition opts_ok :: "cliopt_t \<Rightarrow> bool" where
  "opts_ok c \<longleftrightarrow> 0 \<le> timeout_ms c \<and> 0 \<le> tries c
     \<and> timeout_ms c * tries c + timeout_ms c div 2 < 2 ^ 31"

lemma devmgr_budget_eq:
  assumes "opts_ok c"
  shows "devmgr_budget (Some c) =
    Inr (timeout_ms c, timeout_ms c * tries c + timeout_ms c div 2)"
proof -
  define P where "P = timeout_ms c * tries c"
  have p: "0 \<le> P" "0 \<le> timeout_ms c div 2" "P + timeout_ms c div 2 < 2 ^ 31"
    using assms by (auto simp: opts_ok_def P_def)
  then have "int_ok P" "int_ok (P + timeout_ms c div 2)"
    by (auto simp: int_ok_def)
  then show ?thesis using assms
    by (simp add: devmgr_budget_def cliopt_gettimeout_def cliopt_gettries_def ck_int_def
        c_quot_nonneg opts_ok_def P_def [symmetric])
qed

lemma sub_devmgr_socket_ends:
  assumes api: "cjson_ok api" "mild_env api (os_sp E)"
    and opt: "opts E = Some c" "opts_ok c"
    and env: "env_ok (os_sp E)" "calls_return (os_sp E)" "length (os_stack E) = 1024"
    and clk: "clock_ok E K c (n_clock w)"
    and dth: "devmgr dth = SP_ITEM"
    and src: "0 \<le> inbytes" "inbytes < 2 ^ 31" "nat inbytes \<le> length src"
    and dst: "0 < dstmax" "dstmax < 2 ^ 31" "dstmax \<le> length dst"
    and w: "wf_idle w" "readers (item w) = 0"
  shows "\<exists>rc dst' w'. sub_devmgr_socket E api dth dst inbytes src dstmax w = Some (Inr (rc, dst', w'))
    \<and> - (2 ^ 31) \<le> rc \<and> rc < int dstmax \<and> length dst' = length dst
    \<and> wf_idle w' \<and> readers (item w') = 0 \<and> rdr_cells w' = Map.empty"
proof -
  let ?t = "timeout_ms c" and ?g = "call_budget c"
  have bud: "devmgr_budget (opts E) = Inr (?t, ?g)" using devmgr_budget_eq opt by (simp add: call_budget_def)
  have g: "0 \<le> ?g" "?g < 2 ^ 31" using opt(2) by (auto simp: opts_ok_def call_budget_def)
  note cr = sp_reader_create_eq [OF w calls_return_user [OF env(2)]]
  show ?thesis
  proof (cases "os_alloc (os_sp E) (n_alloc w)")
    case False
    have "wf_idle (w\<lparr>n_alloc := Suc (n_alloc w)\<rparr>)" using w by (simp add: wf_idle_def)
    moreover have "rdr_cells w = Map.empty" using w wf_world_readers [of w] by (auto simp: wf_idle_def)
    ultimately show ?thesis using False bud cr w dth dst by (simp add: sub_devmgr_socket_def)
  next
    case True
    let ?a = "rdr_next w" and ?w1 = "with_reader w"
    let ?m = "\<lparr>dm_state = 0, dm_sid = -1, dm_timeout = ?g, dm_dst = dst, dm_dout = os_stack E\<rparr>"
    let ?w2 = "?w1\<lparr>n_clock := Suc (n_clock ?w1)\<rparr>"
    have n: "n_clock ?w1 = n_clock w" by (simp add: with_reader_def)
    have live: "live_reader ?a ?w2"
      using wf_with_reader [OF w(1)] by (simp add: live_reader_def) (simp add: with_reader_def)
    have nil: "list_all (mild api) (carry ?a ?w2)" by (simp add: carry_def unread_def with_reader_def)
    have fin: "\<exists>w3. devmgr_term E (Some ?a) (rc, m, w') = Inr (rc, dm_dst m, w3)
        \<and> wf_idle w3 \<and> readers (item w3) = 0 \<and> rdr_cells w3 = Map.empty"
      if "live_reader ?a w'" for rc m w'
      using sp_reader_destroy_ok [of w' ?a "os_sp E"] env(2) that by (auto simp: live_reader_def devmgr_term_def)
    show ?thesis
    proof (cases "os_clock E (n_clock w)")
      case None
      then show ?thesis using True bud cr dth dst fin [OF live, of "-5" ?m] n
        by (fastforce simp: sub_devmgr_socket_def)
    next
      case (Some ref)
      have clk': "elapsed_ok E ref (Suc (n_clock w) + K) (n_clock ?w2) (n_clock w + readings K c)"
        using clk Some n by (simp add: clock_ok_def)
      have hi: "n_clock ?w2 + rank (Suc (n_clock w) + K) ?m ?w2 < n_clock w + readings K c"
        using n by (simp add: rank_def readings_def)
      have pre: "round_pre True ?m" by (simp add: round_pre_def)
      have ok: "dm_ok dstmax ?m" using env dst by (simp add: dm_ok_def)
      have gm: "0 \<le> dm_timeout ?m" "dm_timeout ?m < 2 ^ 31" using g by simp_all
      from devmgr_loop_total [where t = ?t, OF api opt(1) env(1,2) src pre ok live nil clk' hi gm]
      obtain rc m' w' where
        "devmgr_loop E api SP_ITEM (Some ?a) ?t ref src inbytes dstmax True ?m ?w2 = Some (Inr (rc, m', w'))"
        "live_reader ?a w'" "length (dm_dst m') = length dst" "- (2 ^ 31) \<le> rc" "rc < int dstmax" by auto
      with True bud cr dth Some n fin [of w' rc m'] show ?thesis
        by (auto simp: sub_devmgr_socket_def)
    qed
  qed
qed


section \<open>Exchanges as runs of the protocol\<close>

text \<open>
  A run of the abstract protocol on what each round receives (\<open>None\<close> for a time-out) and on the
  milliseconds since the start of the exchange after it: the return code, the number of times
  the command is repeated, the last verdict, and the number of rounds. The budget is reduced
  in every round by the time since the start.
\<close>

fun dm_run ::
    "'j cjson \<Rightarrow> nat \<Rightarrow> phase \<Rightarrow> int \<Rightarrow> (byte list option \<times> int) list
     \<Rightarrow> (int \<times> nat \<times> verdict \<times> nat) option" where
  "dm_run api dstmax p g [] = None"
| "dm_run api dstmax p g ((line, el) # ins) =
     (let v = verdict_of api p line in
      case next_of dstmax v (Some (g - el)) of
        Finish rc \<Rightarrow> Some (rc, 0, v, 1)
      | Again \<Rightarrow> map_option (\<lambda>(rc, k, v, n). (rc, k, v, Suc n))
                   (dm_run api dstmax (case v of Stay q \<Rightarrow> q | _ \<Rightarrow> p) (g - el) ins)
      | Resend \<Rightarrow> map_option (\<lambda>(rc, k, v, n). (rc, Suc k, v, Suc n))
                   (dm_run api dstmax Wait_ack (g - el) ins))"

text \<open>An environment in which the rounds see these lines at these times.\<close>

definition plays :: "env \<Rightarrow> nat \<Rightarrow> timespec \<Rightarrow> byte list option \<times> int \<Rightarrow> nat \<Rightarrow> nat \<Rightarrow> bool" where
  "plays E t ref le i j \<longleftrightarrow>
     (let ev = os_event (os_sp E) i in
      ev_before ev = [] \<and> ev_missed ev = [] \<and> ev_during ev = fst le \<and> \<not> ev_late ev
      \<and> ts_valid (sp_deadline t (ev_now ev))
      \<and> map_option (\<lambda>now. elapsed_ms (diff_timespec ref now)) (os_clock E j) = Some (snd le)
      \<and> 0 \<le> snd le \<and> snd le < 2 ^ 31)"

primrec script :: "env \<Rightarrow> nat \<Rightarrow> timespec \<Rightarrow> nat \<Rightarrow> nat \<Rightarrow> (byte list option \<times> int) list \<Rightarrow> bool" where
  "script E t ref i j [] = True"
| "script E t ref i j (le # ins) = (plays E t ref le i j \<and> script E t ref (Suc i) (Suc j) ins)"

definition caught_up :: "nat \<Rightarrow> world \<Rightarrow> bool" where
  "caught_up a w \<longleftrightarrow> live_reader a w \<and> \<not> unread w a"

lemma caught_up_cong:
  "item w' = item w \<Longrightarrow> rdr_cells w' = rdr_cells w \<Longrightarrow> rdr_next w' = rdr_next w \<Longrightarrow>
     caught_up a w' = caught_up a w"
  by (simp add: caught_up_def live_reader_def wf_idle_def wf_world_def unread_def)

lemma script_read:
  assumes w: "caught_up a w" and env: "env_ok (os_sp E)" and buf: "length buf = 1024"
    and pl: "plays E t ref (line, el) (n_read w) j"
  shows "\<exists>rc dout w1. sp_read (os_sp E) (Some a) (Some buf) 1024 t w = Inr (rc, Some dout, w1)
    \<and> line_in line rc dout \<and> length dout = 1024 \<and> caught_up a w1
    \<and> n_read w1 = Suc (n_read w) \<and> n_clock w1 = n_clock w \<and> out w1 = out w
    \<and> sock_out w1 = sock_out w"
proof -
  define ev where "ev = os_event (os_sp E) (n_read w)"
  have ev: "ev_before ev = []" "ev_missed ev = []" "ev_during ev = line" "\<not> ev_late ev"
    "ts_valid (sp_deadline t (ev_now ev))"
    using pl by (auto simp: plays_def ev_def Let_def)
  from w obtain r where wf: "wf_idle w" and r: "rdr_cells w a = Some r" "readers (item w) = 1"
    and lr: "last_read r = read_id (item w)"
    by (auto simp: caught_up_def live_reader_def unread_def)
  have o: "read_outcome ev t a w = line"
    using ev r lr by (simp add: read_outcome_def unread_def Let_def)
  have pb: "read_publishes ev t a w = (case line of None \<Rightarrow> [] | Some f \<Rightarrow> [f])"
    using ev r lr by (simp add: read_publishes_def wait_publishes_def unread_def Let_def)
  from sp_read_eq [OF wf env r(1) buf, of t, folded ev_def, unfolded o pb]
  obtain w' r' where
    rd: "sp_read (os_sp E) (Some a) (Some buf) 1024 t w =
      Inr (case line of None \<Rightarrow> 0 | Some f \<Rightarrow> int (length f),
           Some (case line of None \<Rightarrow> buf | Some f \<Rightarrow> f @ drop (length f) buf), w')"
    and w': "wf_idle w'" "same_rest w w'" "n_read w' = Suc (n_read w)"
      "rdr_cells w' = (rdr_cells w)(a \<mapsto> r')"
    and lr': "last_read r' = (if line \<noteq> None then read_id (item w')
                        else if ev_lock ev then read_id (item w) + of_nat (length (ev_before ev))
                        else last_read r)"
    and rid: "read_id (item w') = read_id (item w) + of_nat (length (case line of None \<Rightarrow> [] | Some f \<Rightarrow> [f]))"
    by blast
  have "caught_up a w'"
    using w' r lr lr' rid ev(1)
    by (cases line) (auto simp: caught_up_def live_reader_def unread_def same_rest_def)
  moreover note outcome_line_in [OF wf env buf o [unfolded ev_def, symmetric]]
  ultimately show ?thesis
    using rd w'(2,3) same_rest_world [OF w'(2)] by (auto simp: same_rest_def)
qed

text \<open>What one transmission of the command puts on the stream: nothing, when it is empty.\<close>

definition command_line :: "byte list \<Rightarrow> int \<Rightarrow> byte list" where
  "command_line src inbytes =
     (if inbytes = 0 then []
      else take (nat inbytes) src @ (if src ! (nat inbytes - 1) = LF then [] else [LF]))"

definition command_ok :: "byte list \<Rightarrow> int \<Rightarrow> bool" where
  "command_ok src inbytes \<longleftrightarrow> 0 \<le> inbytes \<and> inbytes < 2 ^ 31 \<and> nat inbytes \<le> length src"

definition with_output :: "byte list \<Rightarrow> nat \<Rightarrow> 'a sp_world_scheme \<Rightarrow> 'a sp_world_scheme" where
  "with_output s k w = w\<lparr>n_write := n_write w + k, sock_out := sock_out w @ s\<rparr>"

lemma sendcmd_output:
  fixes w :: "'a sp_world_scheme"
  assumes "writes_all E" and "os_user E (n_read w)"
    and "subs (item w) = 0" and "0 < n" and "n \<le> length buf"
  shows "\<exists>rc. 0 \<le> rc \<and> sp_sendcmd E SP_ITEM (Some buf) n w =
    Inr (rc, with_output (take n buf @ (if buf ! (n - 1) = LF then [] else [LF]))
               (if buf ! (n - 1) = LF then 1 else 2) w)"
proof (cases "buf ! (n - 1) = LF")
  case True
  then show ?thesis using assms
    by (simp add: sp_sendcmd_def sub_write_def sp_oswrite_def writes_all_def with_output_def)
next
  case False
  then show ?thesis using assms
    by (simp add: sp_sendcmd_def sub_write_def sp_oswrite_def writes_all_def with_output_def)
qed

lemma devmgr_send_output:
  assumes wr: "writes_all (os_sp E)" "os_user (os_sp E) (n_read w)"
    and w: "wf_idle w" and c: "command_ok src inbytes"
  shows "\<exists>k. devmgr_send E SP_ITEM src inbytes m w =
    Inr (Again, m\<lparr>dm_state := 0, dm_sid := -1\<rparr>, with_output (command_line src inbytes) k w)"
proof -
  have c': "0 \<le> inbytes" "inbytes < 2 ^ 31" "nat inbytes \<le> length src"
    using c unfolding command_ok_def by blast+
  then have n: "to_size inbytes = nat inbytes" by (simp add: to_size_id)
  have "\<exists>rc k. 0 \<le> rc \<and> sp_sendcmd (os_sp E) SP_ITEM (Some src) (nat inbytes) w =
      Inr (rc, with_output (command_line src inbytes) k w)"
  proof (cases "inbytes = 0")
    case True
    then show ?thesis
      by (intro exI [of _ 0]) (simp add: sp_sendcmd_def command_line_def with_output_def)
  next
    case False
    with c' have "0 < nat inbytes" by simp
    from sendcmd_output [OF wr wf_idle_subs [OF w] this c'(3)] False show ?thesis
      unfolding command_line_def if_not_P [OF False] by blast
  qed
  then show ?thesis by (auto simp: devmgr_send_def n)
qed

lemma devmgr_send_runs:
  assumes wr: "writes_all (os_sp E)" "os_user (os_sp E) (n_read w)"
    and w: "caught_up a w" and c: "command_ok src inbytes"
  shows "\<exists>w'. devmgr_send E SP_ITEM src inbytes m w = Inr (Again, m\<lparr>dm_state := 0, dm_sid := -1\<rparr>, w')
    \<and> caught_up a w' \<and> n_read w' = n_read w \<and> n_clock w' = n_clock w \<and> out w' = out w
    \<and> sock_out w' = sock_out w @ command_line src inbytes"
proof -
  have "wf_idle w" using w by (simp add: caught_up_def live_reader_def)
  from devmgr_send_output [OF wr this c, of m] obtain k where
    "devmgr_send E SP_ITEM src inbytes m w =
      Inr (Again, m\<lparr>dm_state := 0, dm_sid := -1\<rparr>, with_output (command_line src inbytes) k w)" by blast
  moreover have "caught_up a (with_output (command_line src inbytes) k w)"
    using w caught_up_cong [of "with_output (command_line src inbytes) k w" w a] by (simp add: with_output_def)
  ultimately show ?thesis by (simp add: with_output_def)
qed

lemma caught_up_after [simp]: "caught_up a (after_round v t q line w) = caught_up a w"
  by (rule caught_up_cong) (simp_all add: after_round_def Let_def emit_def)

lemma after_round_fields [simp]:
  "n_read (after_round b t v line w) = n_read w" "sock_out (after_round b t v line w) = sock_out w"
  "out (after_round b t v line w) = out w @ shown b t line"
  "n_clock (after_round b t v line w) = (if final v then n_clock w else Suc (n_clock w))"
  by (simp_all add: after_round_def Let_def emit_def)

text \<open>What an exchange relies on: a JSON library as documented, no published acknowledgement whose
  error code overflows, lines as the I/O thread makes them, calls that return, a socket that takes
  every byte, and a command that fits its buffer.\<close>

definition exchange_ok :: "env \<Rightarrow> 'j cjson \<Rightarrow> cliopt_t \<Rightarrow> byte list \<Rightarrow> int \<Rightarrow> bool" where
  "exchange_ok E api c src inbytes \<longleftrightarrow>
     cjson_ok api \<and> mild_env api (os_sp E) \<and> opts E = Some c \<and> env_ok (os_sp E)
     \<and> calls_return (os_sp E) \<and> writes_all (os_sp E) \<and> command_ok src inbytes"

lemma devmgr_iter_runs:
  assumes ex: "exchange_ok E api c src inbytes" and rep: "rep p m" and m: "dm_ok dstmax m"
    and w: "caught_up a w" and g: "0 \<le> dm_timeout m" "dm_timeout m < 2 ^ 31"
    and pl: "plays E (to_size t) ref (line, el) (n_read w) (n_clock w)"
  defines "v \<equiv> verdict_of api p line"
  shows "\<exists>m' w'. devmgr_iter E api (Some a) t ref dstmax m w =
      Inr (next_of dstmax v (Some (dm_timeout m - el)), m', w')
    \<and> dm_ok dstmax m' \<and> dm_dst m' = copied_to dstmax v (dm_dst m) \<and> caught_up a w'
    \<and> n_read w' = Suc (n_read w)
    \<and> (final v \<or> n_clock w' = Suc (n_clock w) \<and> dm_timeout m' = dm_timeout m - el)
    \<and> out w' = out w @ shown (verbose_on c) t line \<and> sock_out w' = sock_out w
    \<and> (case v of Stay p' \<Rightarrow> rep p' m' | _ \<Rightarrow> True)"
proof -
  have e: "cjson_ok api" "mild_env api (os_sp E)" "opts E = Some c" "env_ok (os_sp E)"
    using ex by (simp_all add: exchange_ok_def)
  have "ev_during (os_event (os_sp E) (n_read w)) = line" using pl by (simp add: plays_def Let_def)
  moreover have "list_all (mild api) (ev_lines (os_event (os_sp E) (n_read w)))"
    using e(2) by (simp add: mild_env_def)
  ultimately have "pred_option (mild api) line" by (cases line) (simp_all add: ev_lines_def)
  note api = e(1) this
  have len: "length (dm_dout m) = 1024" using m by (simp add: dm_ok_def)
  from script_read [OF w e(4) len pl] obtain rc dout w1
    where rd: "sp_read (os_sp E) (Some a) (Some (dm_dout m)) 1024 (to_size t) w = Inr (rc, Some dout, w1)"
      and line: "line_in line rc dout" "length dout = 1024" and w1: "caught_up a w1"
      "n_read w1 = Suc (n_read w)" "n_clock w1 = n_clock w" "out w1 = out w" "sock_out w1 = sock_out w"
    by blast
  have "to_int (dm_timeout m - el) = dm_timeout m - el"
    using pl g by (intro to_int_id) (auto simp: plays_def Let_def int_ok_def)
  then have b: "budget_left E ref m w1 = Some (dm_timeout m - el)"
    using pl w1(3) by (auto simp: budget_left_def plays_def Let_def)
  from devmgr_iter_eq [where ref = ref, OF api rep m e(3) rd line, folded v_def, unfolded b]
  obtain m' where "devmgr_iter E api (Some a) t ref dstmax m w =
      Inr (next_of dstmax v (Some (dm_timeout m - el)), m', after_round (verbose_on c) t v line w1)"
    and "dm_ok dstmax m'" "dm_dst m' = copied_to dstmax v (dm_dst m)"
    and "final v \<or> dm_timeout m' = dm_timeout m - el"
    and "case v of Stay p' \<Rightarrow> rep p' m' | _ \<Rightarrow> True" by auto
  then show ?thesis using w1
    by (intro exI [of _ m'] exI [of _ "after_round (verbose_on c) t v line w1"]) auto
qed

text \<open>The phase in which a round works, and what it sends.\<close>

definition round_phase :: "bool \<Rightarrow> phase \<Rightarrow> dm \<Rightarrow> bool" where
  "round_phase send p m \<longleftrightarrow> (if send then p = Wait_ack else rep p m)"

lemma devmgr_round_runs:
  assumes ex: "exchange_ok E api c src inbytes" and ph: "round_phase send p m" and m: "dm_ok dstmax m"
    and w: "caught_up a w" and g: "0 \<le> dm_timeout m" "dm_timeout m < 2 ^ 31"
    and pl: "plays E (to_size t) ref (line, el) (n_read w) (n_clock w)"
  defines "v \<equiv> verdict_of api p line"
  shows "\<exists>m' w'. devmgr_round E api SP_ITEM (Some a) t ref src inbytes dstmax send m w =
      Inr (next_of dstmax v (Some (dm_timeout m - el)), m', w')
    \<and> dm_ok dstmax m' \<and> dm_dst m' = copied_to dstmax v (dm_dst m) \<and> caught_up a w'
    \<and> n_read w' = Suc (n_read w)
    \<and> (final v \<or> n_clock w' = Suc (n_clock w) \<and> dm_timeout m' = dm_timeout m - el)
    \<and> out w' = out w @ shown (verbose_on c) t line
    \<and> sock_out w' = sock_out w @ (if send then command_line src inbytes else [])
    \<and> (case v of Stay p' \<Rightarrow> rep p' m' | _ \<Rightarrow> True)"
proof (cases send)
  case False
  with ph have "rep p m" by (simp add: round_phase_def)
  from devmgr_iter_runs [OF ex this m w g pl] False show ?thesis
    by (simp add: devmgr_round_def v_def)
next
  case True
  let ?m = "m\<lparr>dm_state := 0, dm_sid := -1\<rparr>"
  have wr: "writes_all (os_sp E)" "os_user (os_sp E) (n_read w)" "command_ok src inbytes"
    using ex by (simp_all add: exchange_ok_def)
  from devmgr_send_runs [OF wr(1,2) w wr(3), of m] obtain w1
    where s: "devmgr_send E SP_ITEM src inbytes m w = Inr (Again, ?m, w1)"
      and w1: "caught_up a w1" "n_read w1 = n_read w" "n_clock w1 = n_clock w" "out w1 = out w"
        "sock_out w1 = sock_out w @ command_line src inbytes" by blast
  have m1: "rep p ?m" "dm_ok dstmax ?m" "0 \<le> dm_timeout ?m" "dm_timeout ?m < 2 ^ 31"
    using True ph m g by (auto simp: round_phase_def dm_ok_def)
  have pl1: "plays E (to_size t) ref (line, el) (n_read w1) (n_clock w1)" using pl w1 by simp
  from devmgr_iter_runs [OF ex m1(1,2) w1(1) m1(3,4) pl1] True s w1 show ?thesis
    by (simp add: devmgr_round_def v_def)
qed

end
