(* ===== verification/Devmgr_Exchange.thy ===== *)
theory Devmgr_Exchange
  imports Devmgr_Run
begin

text \<open>
  Complete exchanges of the device manager command: the loop of the code, run against any peer,
  computes a run of the abstract protocol; from that the results of particular exchanges, the
  number of times a command is repeated, and the two defects of the result codes and of the
  result buffer.
\<close>

section \<open>The loop is a run of the protocol\<close>

lemma concat_replicate_Suc: "concat (replicate (Suc k) s) = s @ concat (replicate k s)"
  by simp

text \<open>The result a run prescribes: return code, destination, output, bytes on the stream.\<close>

definition loop_result ::
    "nat \<Rightarrow> bool \<Rightarrow> int \<Rightarrow> byte list \<Rightarrow> (byte list option \<times> int) list \<Rightarrow> nat \<Rightarrow> nat \<Rightarrow> verdict \<Rightarrow> nat
     \<Rightarrow> dm \<Rightarrow> world \<Rightarrow> dm \<Rightarrow> world \<Rightarrow> bool" where
  "loop_result dstmax verb t cmdl ins a k v n m w m' w' \<longleftrightarrow>
     dm_dst m' = copied_to dstmax v (dm_dst m)
     \<and> out w' = out w @ concat (map (\<lambda>x. shown verb t (fst x)) (take n ins))
     \<and> sock_out w' = sock_out w @ concat (replicate k cmdl)
     \<and> live_reader a w'"

lemma copied_to_nonfinal: "\<not> final v \<Longrightarrow> copied_to dstmax v dst = dst"
  by (cases v) auto

lemma next_of_final: "next_of dstmax v b = Again \<or> next_of dstmax v b = Resend \<Longrightarrow> \<not> final v"
  by (cases v) auto

lemma next_of_Again: "next_of dstmax v (Some b) = Again \<longleftrightarrow> (\<exists>q. v = Stay q) \<and> 0 < b"
  by (cases v) auto

lemma next_of_Resend: "next_of dstmax v (Some b) = Resend \<longleftrightarrow> v = Retry \<and> 0 < b"
  by (cases v) auto

lemma devmgr_loop_runs:
  assumes ex: "exchange_ok E api c src inbytes"
  shows "round_phase send p m \<Longrightarrow> dm_ok dstmax m \<Longrightarrow> caught_up a w \<Longrightarrow>
      0 \<le> dm_timeout m \<Longrightarrow> dm_timeout m < 2 ^ 31 \<Longrightarrow>
      script E (to_size t) ref (n_read w) (n_clock w) ins \<Longrightarrow>
      dm_run api dstmax p (dm_timeout m) ins = Some (rc, k, v, n) \<Longrightarrow>
    \<exists>m' w'. devmgr_loop E api SP_ITEM (Some a) t ref src inbytes dstmax send m w
        = Some (Inr (rc, m', w'))
      \<and> loop_result dstmax (verbose_on c) t (command_line src inbytes) ins a
          (k + (if send then 1 else 0)) v n m w m' w'"
proof (induction ins arbitrary: send p m w rc k v n)
  case Nil
  then show ?case by simp
next
  case (Cons le ins)
  obtain line el where le: "le = (line, el)" by (cases le)
  let ?v = "verdict_of api p line" and ?g = "dm_timeout m - el"
  have pl: "plays E (to_size t) ref (line, el) (n_read w) (n_clock w)" using Cons.prems(6) le by simp
  then have el: "0 \<le> el" by (simp add: plays_def Let_def)
  from devmgr_round_runs [OF ex Cons.prems(1-5) pl] obtain m1 w1 where
    r: "devmgr_round E api SP_ITEM (Some a) t ref src inbytes dstmax send m w =
      Inr (next_of dstmax ?v (Some ?g), m1, w1)"
    and m1: "dm_ok dstmax m1" "dm_dst m1 = copied_to dstmax ?v (dm_dst m)" and cu: "caught_up a w1"
    and n1: "n_read w1 = Suc (n_read w)"
    and fin: "final ?v \<or> n_clock w1 = Suc (n_clock w) \<and> dm_timeout m1 = ?g"
    and o1: "out w1 = out w @ shown (verbose_on c) t line"
      "sock_out w1 = sock_out w @ (if send then command_line src inbytes else [])"
    and st: "case ?v of Stay p' \<Rightarrow> rep p' m1 | _ \<Rightarrow> True" by blast
  have live: "live_reader a w1" using cu by (simp add: caught_up_def)
  note unf = devmgr_loop_round [of _ _ _ _ _ _ _ _ _ send m w]
  show ?case
  proof (cases "next_of dstmax ?v (Some ?g)")
    case (Finish e)
    then have "rc = e" "k = 0" "v = ?v" "n = 1" using Cons.prems(7) le by (simp_all add: Let_def)
    with Finish r m1 o1 live le show ?thesis
      by (simp add: unf loop_result_def)
  next
    case Again
    then obtain q where q: "?v = Stay q" and g: "0 < ?g" by (auto simp: next_of_Again)
    with fin have t1: "n_clock w1 = Suc (n_clock w)" "dm_timeout m1 = ?g" by auto
    from Cons.prems(7) Again q le obtain n0 where n: "n = Suc n0"
      and run: "dm_run api dstmax q (dm_timeout m1) ins = Some (rc, k, v, n0)"
      by (auto simp: t1 Let_def)
    have ph: "round_phase False q m1" using q st by (simp add: round_phase_def)
    have b: "0 \<le> dm_timeout m1" "dm_timeout m1 < 2 ^ 31" using g el Cons.prems(5) t1 by auto
    have sc: "script E (to_size t) ref (n_read w1) (n_clock w1) ins" using Cons.prems(6) le n1 t1 by simp
    from Cons.IH [OF ph m1(1) cu b sc run] obtain m' w' where
      "devmgr_loop E api SP_ITEM (Some a) t ref src inbytes dstmax False m1 w1 = Some (Inr (rc, m', w'))"
      "loop_result dstmax (verbose_on c) t (command_line src inbytes) ins a k v n0 m1 w1 m' w'" by auto
    with Again r m1 o1 q le n show ?thesis
      by (simp add: unf loop_result_def)
  next
    case Resend
    then have q: "?v = Retry" and g: "0 < ?g" by (auto simp: next_of_Resend)
    with fin have t1: "n_clock w1 = Suc (n_clock w)" "dm_timeout m1 = ?g" by auto
    from Cons.prems(7) Resend q le obtain k0 n0 where n: "n = Suc n0" "k = Suc k0"
      and run: "dm_run api dstmax Wait_ack (dm_timeout m1) ins = Some (rc, k0, v, n0)"
      by (auto simp: t1 Let_def)
    have ph: "round_phase True Wait_ack m1" by (simp add: round_phase_def)
    have b: "0 \<le> dm_timeout m1" "dm_timeout m1 < 2 ^ 31" using g el Cons.prems(5) t1 by auto
    have sc: "script E (to_size t) ref (n_read w1) (n_clock w1) ins" using Cons.prems(6) le n1 t1 by simp
    from Cons.IH [OF ph m1(1) cu b sc run] obtain m' w' where
      "devmgr_loop E api SP_ITEM (Some a) t ref src inbytes dstmax True m1 w1 = Some (Inr (rc, m', w'))"
      "loop_result dstmax (verbose_on c) t (command_line src inbytes) ins a (Suc k0) v n0 m1 w1 m' w'"
      by auto
    with Resend r m1 o1 q le n show ?thesis
      by (simp add: unf loop_result_def)
  qed
qed

section \<open>A whole call\<close>

text \<open>The state and the arguments a call starts from.\<close>

definition call_ok :: "env \<Rightarrow> dterm_handle_t \<Rightarrow> cliopt_t \<Rightarrow> byte list \<Rightarrow> nat \<Rightarrow> world \<Rightarrow> bool" where
  "call_ok E dth c dst dstmax w \<longleftrightarrow>
     devmgr dth = SP_ITEM \<and> use_socket dth \<and> opts_ok c \<and> length (os_stack E) = 1024
     \<and> 0 < dstmax \<and> dstmax < 2 ^ 31 \<and> dstmax \<le> length dst
     \<and> wf_idle w \<and> readers (item w) = 0 \<and> os_alloc (os_sp E) (n_alloc w)"

text \<open>The loop variables and the world with which a call enters the loop, and how it goes on after it.\<close>

definition call_start :: "env \<Rightarrow> cliopt_t \<Rightarrow> byte list \<Rightarrow> dm" where
  "call_start E c dst = \<lparr>dm_state = 0, dm_sid = -1, dm_timeout = call_budget c, dm_dst = dst, dm_dout = os_stack E\<rparr>"

definition call_world :: "world \<Rightarrow> world" where
  "call_world w = (with_reader w)\<lparr>n_clock := Suc (n_clock w)\<rparr>"

lemma call_world_sel [simp]:
  "n_read (call_world w) = n_read w" "n_clock (call_world w) = Suc (n_clock w)"
  "out (call_world w) = out w" "sock_out (call_world w) = sock_out w"
  "dm_timeout (call_start E c dst) = call_budget c" "dm_dst (call_start E c dst) = dst"
  by (simp_all add: call_world_def with_reader_def call_start_def)

lemma call_start_ok:
  assumes "call_ok E dth c dst dstmax w"
  shows "round_phase True Wait_ack (call_start E c dst)" "dm_ok dstmax (call_start E c dst)"
    "caught_up (rdr_next w) (call_world w)" "0 \<le> dm_timeout (call_start E c dst)"
    "dm_timeout (call_start E c dst) < 2 ^ 31"
proof -
  have "opts_ok c" "wf_idle w" using assms by (simp_all add: call_ok_def)
  then show "0 \<le> dm_timeout (call_start E c dst)" "dm_timeout (call_start E c dst) < 2 ^ 31"
    by (auto simp: opts_ok_def call_budget_def)
  show "round_phase True Wait_ack (call_start E c dst)" by (simp add: round_phase_def)
  show "dm_ok dstmax (call_start E c dst)" using assms by (simp add: dm_ok_def call_ok_def call_start_def)
  show "caught_up (rdr_next w) (call_world w)"
    using wf_with_reader [OF \<open>wf_idle w\<close>]
    by (simp add: caught_up_def live_reader_def call_world_def) (simp add: with_reader_def unread_def)
qed

lemma cmd_devmgr_frame:
  assumes o: "opts E = Some c" and call: "call_ok E dth c dst dstmax w"
    and ref: "os_clock E (n_clock w) = Some ref"
    and l: "devmgr_loop E api SP_ITEM (Some (rdr_next w)) (timeout_ms c) ref src inbytes dstmax True
        (call_start E c dst) (call_world w) = Some (Inr (rc, m', w'))"
    and live: "live_reader (rdr_next w) w'" and lock: "os_user (os_sp E) (n_read w)" "os_user (os_sp E) (n_read w')"
  shows "\<exists>w3. cmd_devmgr E api (Some dth) dst inbytes src dstmax w = Some (Inr (rc, dm_dst m', w3))
    \<and> out w3 = out w' \<and> sock_out w3 = sock_out w' \<and> n_read w3 = n_read w'
    \<and> n_clock w3 = n_clock w' \<and> wf_idle w3 \<and> readers (item w3) = 0"
proof -
  have call': "devmgr dth = SP_ITEM" "use_socket dth" "opts_ok c" "wf_idle w" "readers (item w) = 0"
    "os_alloc (os_sp E) (n_alloc w)"
    using call unfolding call_ok_def by blast+
  have bud: "devmgr_budget (opts E) = Inr (timeout_ms c, call_budget c)"
    using devmgr_budget_eq [OF call'(3)] o by (simp add: call_budget_def)
  from live have "wf_idle w'" "readers (item w') = 1" "rdr_cells w' (rdr_next w) \<noteq> None"
    by (auto simp: live_reader_def)
  from sp_reader_destroy_ok [OF this lock(2)] obtain w3 where
    d: "sp_reader_destroy (os_sp E) (Some (rdr_next w)) w' = Inr w3" and w3: "wf_idle w3" "readers (item w3) = 0"
      "sp_world.more w3 = sp_world.more w'" "sock_out w3 = sock_out w'" "n_read w3 = n_read w'" by blast
  have o3: "out w3 = out w'" "n_clock w3 = n_clock w'" using w3(3) by (cases w3; cases w'; simp)+
  have cr: "sp_reader_create (os_sp E) SP_ITEM w = Inr (Some (rdr_next w), with_reader w)"
    using sp_reader_create_eq [OF call'(4,5) lock(1)] call'(6) by simp
  have n: "n_clock (with_reader w) = n_clock w" by (simp add: with_reader_def)
  have "cmd_devmgr E api (Some dth) dst inbytes src dstmax w = Some (Inr (rc, dm_dst m', w3))"
    using call'(1,2) bud cr ref l d n
    by (simp add: cmd_devmgr_def sub_devmgr_socket_def devmgr_term_def call_start_def call_world_def)
  then show ?thesis using w3 o3 by blast
qed

lemma cmd_devmgr_run:
  assumes ex: "exchange_ok E api c src inbytes" and call: "call_ok E dth c dst dstmax w"
    and ref: "os_clock E (n_clock w) = Some ref"
    and sc: "script E (to_size (timeout_ms c)) ref (n_read w) (Suc (n_clock w)) ins"
    and run: "dm_run api dstmax Wait_ack (call_budget c) ins = Some (rc, k, v, n)"
  shows "\<exists>w'. cmd_devmgr E api (Some dth) dst inbytes src dstmax w
      = Some (Inr (rc, copied_to dstmax v dst, w'))
    \<and> out w' = out w @ concat (map (\<lambda>x. shown (verbose_on c) (timeout_ms c) (fst x)) (take n ins))
    \<and> sock_out w' = sock_out w @ concat (replicate (Suc k) (command_line src inbytes))
    \<and> wf_idle w' \<and> readers (item w') = 0"
proof -
  have o: "opts E = Some c" using ex by (simp add: exchange_ok_def)
  have "script E (to_size (timeout_ms c)) ref (n_read (call_world w)) (n_clock (call_world w)) ins"
    "dm_run api dstmax Wait_ack (dm_timeout (call_start E c dst)) ins = Some (rc, k, v, n)"
    using sc run by simp_all
  from devmgr_loop_runs [OF ex call_start_ok [OF call] this] obtain m' w' where
    l: "devmgr_loop E api SP_ITEM (Some (rdr_next w)) (timeout_ms c) ref src inbytes dstmax True
        (call_start E c dst) (call_world w) = Some (Inr (rc, m', w'))"
    and res: "loop_result dstmax (verbose_on c) (timeout_ms c) (command_line src inbytes) ins (rdr_next w)
        (Suc k) v n (call_start E c dst) (call_world w) m' w'" by auto
  have "live_reader (rdr_next w) w'" using res by (simp add: loop_result_def)
  moreover have "os_user (os_sp E) i" for i using ex by (simp add: exchange_ok_def)
  ultimately have "\<exists>w3. cmd_devmgr E api (Some dth) dst inbytes src dstmax w = Some (Inr (rc, dm_dst m', w3))
    \<and> out w3 = out w' \<and> sock_out w3 = sock_out w' \<and> wf_idle w3 \<and> readers (item w3) = 0"
    using cmd_devmgr_frame [OF o call ref l] by blast
  with res show ?thesis by (auto simp: loop_result_def)
qed

section \<open>Sessions\<close>

text \<open>The message a round receives, \<open>None\<close> for a time-out.\<close>

definition msg_at :: "'j cjson \<Rightarrow> (byte list option \<times> int) list \<Rightarrow> nat \<Rightarrow> msg option" where
  "msg_at api ins i = map_option (\<lambda>f. decode api (butlast f)) (fst (ins ! i))"

text \<open>A frame is that of a session: the ack that opened the session came in round \<open>i\<close>, and no
  time-out (after which the command is sent again) lies between the two.\<close>

definition in_session :: "'j cjson \<Rightarrow> (byte list option \<times> int) list \<Rightarrow> u32 \<Rightarrow> nat \<Rightarrow> nat \<Rightarrow> bool" where
  "in_session api ins s i n \<longleftrightarrow>
     i < n \<and> s \<noteq> 0 \<and> msg_at api ins i = Some (M_ack 0 s) \<and> (\<forall>j. i < j \<and> j < n \<longrightarrow> msg_at api ins j \<noteq> None)"

lemma msg_at_Cons [simp]:
  "msg_at api (x # ins) (Suc i) = msg_at api ins i"
  "msg_at api (x # ins) 0 = map_option (\<lambda>f. decode api (butlast f)) (fst x)"
  by (simp_all add: msg_at_def)

lemma in_session_Suc: "in_session api ins s i n \<Longrightarrow> in_session api (x # ins) s (Suc i) (Suc n)"
  by (auto simp: in_session_def less_Suc_eq_0_disj)

lemma proto_Deliver:
  "proto p msg = Deliver t \<Longrightarrow> \<exists>s. p = Wait_rx s \<and> msg = M_rxstat s (Some t)"
  by (induction p msg rule: proto.induct) (auto split: if_splits option.splits)

lemma proto_Stay:
  "proto p msg = Stay (Wait_rx s) \<Longrightarrow> p = Wait_rx s \<or> p = Wait_ack \<and> msg = M_ack 0 s \<and> s \<noteq> 0"
  by (induction p msg rule: proto.induct) (auto split: if_splits option.splits)

lemma dm_run_session:
  "dm_run api dstmax p g ins = Some (rc, k, Deliver t, n) \<Longrightarrow>
     \<exists>n'. n = Suc n' \<and> n' < length ins \<and> rc = int (copied t dstmax) \<and>
       (\<exists>s. msg_at api ins n' = Some (M_rxstat s (Some t)) \<and>
         (p = Wait_rx s \<and> (\<forall>j < n. msg_at api ins j \<noteq> None) \<or> (\<exists>i. in_session api ins s i n')))"
proof (induction ins arbitrary: p g k n)
  case Nil
  then show ?case by simp
next
  case (Cons le ins)
  obtain line el where le: "le = (line, el)" by (cases le)
  let ?v = "verdict_of api p line"
  show ?case
  proof (cases "next_of dstmax ?v (Some (g - el))")
    case (Finish e)
    then have v: "?v = Deliver t" "rc = e" "n = 1" using Cons.prems le by (simp_all add: Let_def)
    then obtain f where f: "line = Some f" "proto p (decode api (butlast f)) = Deliver t"
      by (cases line) (auto simp: verdict_of_def)
    with proto_Deliver [OF f(2)] v Finish le show ?thesis by auto
  next
    case Again
    then obtain q where q: "?v = Stay q" by (auto simp: next_of_Again)
    then obtain f where f: "line = Some f" "proto p (decode api (butlast f)) = Stay q"
      by (cases line) (auto simp: verdict_of_def)
    from Cons.prems Again q le obtain n0 where n: "n = Suc n0"
      and run: "dm_run api dstmax q (g - el) ins = Some (rc, k, Deliver t, n0)" by (auto simp: Let_def)
    from Cons.IH [OF run] obtain n' s where n': "n0 = Suc n'" "n' < length ins" "rc = int (copied t dstmax)"
      and m: "msg_at api ins n' = Some (M_rxstat s (Some t))"
      and c: "q = Wait_rx s \<and> (\<forall>j < n0. msg_at api ins j \<noteq> None) \<or> (\<exists>i. in_session api ins s i n')" by blast
    from c show ?thesis
    proof
      assume c1: "q = Wait_rx s \<and> (\<forall>j < n0. msg_at api ins j \<noteq> None)"
      then have all: "\<forall>j < Suc n0. msg_at api (le # ins) j \<noteq> None"
        using f(1) le by (auto simp: less_Suc_eq_0_disj)
      from proto_Stay [of p _ s] f(2) c1
      have "p = Wait_rx s \<or> s \<noteq> 0 \<and> msg_at api (le # ins) 0 = Some (M_ack 0 s)"
        using f(1) le by auto
      then show ?thesis
      proof
        assume "p = Wait_rx s"
        with all m n n' show ?thesis by auto
      next
        assume "s \<noteq> 0 \<and> msg_at api (le # ins) 0 = Some (M_ack 0 s)"
        with all n' have "in_session api (le # ins) s 0 n0" by (auto simp: in_session_def)
        with m n n' show ?thesis by (intro exI [of _ n0] conjI exI [of _ s]) auto
      qed
    next
      assume "\<exists>i. in_session api ins s i n'"
      then obtain i where "in_session api (le # ins) s i n0" using in_session_Suc n'(1) by blast
      with m n n' show ?thesis by auto
    qed
  next
    case Resend
    with Cons.prems le obtain k0 n0 where n: "n = Suc n0"
      and run: "dm_run api dstmax Wait_ack (g - el) ins = Some (rc, k0, Deliver t, n0)"
      by (auto simp: Let_def next_of_Resend)
    from Cons.IH [OF run] obtain n' s i where n': "n0 = Suc n'" "n' < length ins" "rc = int (copied t dstmax)"
      and m: "msg_at api ins n' = Some (M_rxstat s (Some t))" and i: "in_session api ins s i n'" by blast
    then have "in_session api (le # ins) s (Suc i) n0" using in_session_Suc by simp
    with m n n' show ?thesis by auto
  qed
qed

section \<open>Silent peers\<close>

text \<open>What the rounds see when nothing is received: a time-out each, at these times after the start.\<close>

definition silent :: "int list \<Rightarrow> (byte list option \<times> int) list" where
  "silent els = map (\<lambda>el. (None, el)) els"

lemma dm_run_silent:
  "els \<noteq> [] \<Longrightarrow> list_all (\<lambda>el. 0 \<le> el) els \<Longrightarrow> sum_list (butlast els) < g \<Longrightarrow> g \<le> sum_list els \<Longrightarrow>
     dm_run api dstmax p g (silent els) = Some (-4, length els - 1, Retry, length els)"
proof (induction els arbitrary: p g)
  case (Cons el els)
  show ?case
  proof (cases "els = []")
    case False
    have "0 \<le> sum_list (butlast els)"
      using Cons.prems(2) by (intro sum_list_nonneg) (auto simp: list_all_iff dest: in_set_butlastD)
    with Cons.prems False have pos: "0 < g - el" by simp
    from Cons.IH [of "g - el" Wait_ack] Cons.prems False pos show ?thesis
      by (simp add: silent_def verdict_of_def Let_def)
  qed (use Cons.prems in \<open>simp add: silent_def verdict_of_def\<close>)
qed simp

text \<open>The sum of the times when the \<open>j\<close>-th time-out ends \<open>j\<close> times \<open>T\<close> after the start.\<close>

definition spent :: "int \<Rightarrow> nat \<Rightarrow> int" where
  "spent T n = (\<Sum>i < n. (int i + 1) * T)"

lemma spent_closed: "2 * spent T n = int n * (int n + 1) * T"
  by (induction n) (simp_all add: spent_def algebra_simps)

lemma spent_mono: "0 \<le> T \<Longrightarrow> n \<le> r \<Longrightarrow> spent T n \<le> spent T r"
  unfolding spent_def by (rule sum_mono2) auto

lemma silent_budget:
  fixes T n :: int and r :: nat
  assumes T: "2 \<le> T"
  shows "int r * (int r + 1) \<le> 2 * n \<Longrightarrow> spent T r < T * n + T div 2"
    "2 * n < (int r + 1) * (int r + 2) \<Longrightarrow> T * n + T div 2 \<le> spent T (Suc r)"
proof -
  assume lo: "int r * (int r + 1) \<le> 2 * n"
  have "2 * spent T r \<le> 2 * n * T"
    unfolding spent_closed using lo T by (intro mult_right_mono) auto
  moreover have "0 < T div 2" using T by (simp add: pos_imp_zdiv_pos_iff)
  ultimately show "spent T r < T * n + T div 2" by (simp add: mult.commute)
next
  assume hi: "2 * n < (int r + 1) * (int r + 2)"
  have "even ((int r + 1) * (int r + 2))" by simp
  then obtain q where q: "(int r + 1) * (int r + 2) = 2 * q" by (rule evenE)
  then have "2 * n + 2 \<le> (int r + 1) * (int r + 2)" using hi unfolding q by simp
  then have "(2 * n + 2) * T \<le> (int r + 1) * (int r + 2) * T" using T by (intro mult_right_mono) auto
  then have "2 * (n * T + T) \<le> 2 * spent T (Suc r)"
    unfolding spent_closed by (simp add: algebra_simps)
  moreover have "T div 2 \<le> T" using T by simp
  ultimately show "T * n + T div 2 \<le> spent T (Suc r)" by (simp add: mult.commute)
qed

lemma sum_list_least:
  fixes T :: int
  assumes "\<forall>i < length els. (int i + 1) * T \<le> els ! i"
  shows "spent T (length els) \<le> sum_list els"
  unfolding spent_def sum_list_sum_nth atLeast0LessThan by (rule sum_mono) (use assms in auto)

text \<open>How often a silent peer is asked, when the \<open>j\<close>-th time-out is over no sooner than \<open>j\<close> times the
  time-out after the start, and when it is over exactly then.\<close>

lemma silent_rounds:
  fixes T :: int
  assumes T: "2 \<le> T" and n: "els \<noteq> []"
    and lo: "sum_list (butlast els) < T * k + T div 2" and hi: "T * k + T div 2 \<le> sum_list els"
  shows "\<forall>i < length els. (int i + 1) * T \<le> els ! i \<Longrightarrow> 2 * k < (int r + 1) * (int r + 2) \<Longrightarrow>
      length els \<le> Suc r"
    "\<forall>i < length els. els ! i = (int i + 1) * T \<Longrightarrow> int r * (int r + 1) \<le> 2 * k \<Longrightarrow> Suc r \<le> length els"
proof -
  assume a: "\<forall>i < length els. (int i + 1) * T \<le> els ! i" and r: "2 * k < (int r + 1) * (int r + 2)"
  show "length els \<le> Suc r"
  proof (rule ccontr)
    assume "\<not> length els \<le> Suc r"
    then have "spent T (Suc r) \<le> spent T (length (butlast els))" using T by (intro spent_mono) auto
    moreover have "spent T (length (butlast els)) \<le> sum_list (butlast els)"
      by (rule sum_list_least) (use a in \<open>auto simp: nth_butlast\<close>)
    ultimately show False using silent_budget(2) [OF T r] lo by simp
  qed
next
  assume a: "\<forall>i < length els. els ! i = (int i + 1) * T" and r: "int r * (int r + 1) \<le> 2 * k"
  have "sum_list els = spent T (length els)"
    unfolding spent_def sum_list_sum_nth atLeast0LessThan by (rule sum.cong) (use a in auto)
  then show "Suc r \<le> length els"
    using spent_mono [of T "length els" r] silent_budget(1) [OF T r] hi T by fastforce
qed

section \<open>A concrete environment\<close>

text \<open>The environment in which each of the rounds sees a given line, or a time-out, at a given
  number of milliseconds after the start.\<close>

definition play_event :: "byte list option \<times> int \<Rightarrow> rd_event" where
  "play_event x = (case fst x of None \<Rightarrow> ev_quiet | Some f \<Rightarrow> ev_line f)"

definition ms_after :: "int \<Rightarrow> timespec" where
  "ms_after ms = Timespec (100 + ms div 1000) (ms mod 1000 * 1000000)"

definition play_env :: "cliopt_t \<Rightarrow> (byte list option \<times> int) list \<Rightarrow> env" where
  "play_env c ins = \<lparr>os_sp = env_of (map play_event ins),
     os_clock = (\<lambda>k. Some (case k of 0 \<Rightarrow> ms_after 0 | Suc i \<Rightarrow>
       ms_after (if i < length ins then snd (ins ! i) else 0))),
     os_stack = replicate 1024 NUL, opts = Some c\<rparr>"

lemma elapsed_ms_between:
  assumes "0 \<le> a" and "0 \<le> b"
  shows "elapsed_ms (diff_timespec (ms_after a) (ms_after b)) = b - a"
proof -
  have v: "ts_valid (ms_after m)" "ns (ms_after m) = (100000 + m) * 1000000" if "0 \<le> m" for m
  proof -
    define q r where "q = m div 1000" and "r = m mod 1000"
    have "m = q * 1000 + r" by (simp add: q_def r_def)
    then show "ns (ms_after m) = (100000 + m) * 1000000"
      unfolding ms_after_def ns_def q_def [symmetric] r_def [symmetric] by simp
    show "ts_valid (ms_after m)" using pos_mod_bound [of 1000 m] by (simp add: ms_after_def ts_valid_def)
  qed
  have "ts_valid (diff_timespec (ms_after a) (ms_after b))" using v(1) assms by (intro ts_valid_diff) auto
  then have "elapsed_ms (diff_timespec (ms_after a) (ms_after b)) = ((b - a) * 1000000) div 1000000"
    using v(2) assms by (simp add: elapsed_ms_ns ns_diff algebra_simps)
  then show ?thesis by simp
qed

lemma elapsed_ms_after: "0 \<le> ms \<Longrightarrow> elapsed_ms (diff_timespec (ms_after 0) (ms_after ms)) = ms"
  using elapsed_ms_between [of 0 ms] by simp

text \<open>A clock that never fails, with two readings in each millisecond.\<close>

definition steady_clock :: "nat \<Rightarrow> timespec option" where
  "steady_clock k = Some (ms_after (int (k div 2)))"

lemma steady_clock_ok:
  assumes "os_clock E = steady_clock" and "call_budget c < 2 ^ 30"
  shows "clock_ok E 1 c k"
proof -
  have "0 \<le> int (i div 2) - int (k div 2) \<and> int (i div 2) - int (k div 2) < 2 ^ 31
      \<and> (Suc k + 1 \<le> i \<longrightarrow> 1 \<le> int (i div 2) - int (k div 2))"
    if "Suc k \<le> i" "i < k + readings 1 c" for i
    using that assms(2) by (auto simp: readings_def)
  then show ?thesis
    by (auto simp: clock_ok_def elapsed_ok_def assms(1) steady_clock_def elapsed_ms_between Let_def)
qed

definition input_ok :: "byte list option \<times> int \<Rightarrow> bool" where
  "input_ok x \<longleftrightarrow> pred_option frame_ok (fst x) \<and> 0 \<le> snd x \<and> snd x < 2 ^ 31"

lemma ev_quiet_sel [simp]:
  "ev_before ev_quiet = []" "ev_missed ev_quiet = []" "ev_during ev_quiet = None"
  "ev_late ev_quiet = False" "ev_now ev_quiet = Timespec 100 0" "ev_lock ev_quiet = True"
  by (simp_all add: ev_quiet_def)

lemma play_event_sel [simp]:
  "ev_before (play_event x) = []" "ev_missed (play_event x) = []" "ev_during (play_event x) = fst x"
  "ev_late (play_event x) = False" "ev_now (play_event x) = Timespec 100 0"
  by (simp_all add: play_event_def ev_line_def split: option.splits)

lemma play_env_plays:
  assumes "list_all input_ok ins" and "i < length ins" and "ts_valid (sp_deadline t (Timespec 100 0))"
  shows "plays (play_env c ins) t (ms_after 0) (ins ! i) i (Suc i)"
proof -
  have "input_ok (ins ! i)" using assms by (simp add: list_all_length)
  then show ?thesis using assms elapsed_ms_after [of "snd (ins ! i)"]
    by (simp add: plays_def play_env_def env_of_def input_ok_def Let_def)
qed

lemma script_nth:
  "script E t ref i j ins \<longleftrightarrow> (\<forall>k < length ins. plays E t ref (ins ! k) (i + k) (j + k))"
proof (induction ins arbitrary: i j)
  case Nil
  then show ?case by simp
next
  case (Cons a ins)
  show ?case by (auto simp: Cons less_Suc_eq_0_disj)
qed

lemma play_env_script:
  assumes "list_all input_ok ins" and "ts_valid (sp_deadline t (Timespec 100 0))"
  shows "script (play_env c ins) t (ms_after 0) 0 1 ins"
  using play_env_plays [OF assms(1) _ assms(2)] by (simp add: script_nth)

lemma play_env_ok:
  assumes "list_all input_ok ins" and "command_ok src inbytes" and "mild_table tbl"
  shows "exchange_ok (play_env c ins) (jv_cjson tbl) c src inbytes"
proof -
  have "event_ok (play_event x)" if "input_ok x" for x
    using that by (auto simp: play_event_def event_ok_def input_ok_def ts_valid_def ev_line_def split: option.splits)
  then have "env_ok (env_of (map play_event ins))"
    using assms(1) by (intro env_ok_env_of) (simp add: list_all_length)
  then show ?thesis using assms(2) mild_tableD(2) [OF assms(3)]
    by (simp add: exchange_ok_def play_env_def writes_all_def calls_return_def env_of_def)
qed

definition demo_world :: world where
  "demo_world = sp_world.extend sp_start \<lparr>out = [], err = [], n_clock = 0\<rparr>"

definition demo_opts :: "int \<Rightarrow> cliopt_t" where
  "demo_opts n = \<lparr>verbose_on = False, debug_on = False, format = FORMAT_JsonHex,
     mempool_size = 4096, timeout_ms = 500, tries = n\<rparr>"

definition demo_dth :: dterm_handle_t where
  "demo_dth = \<lparr>fd = \<lparr>fd_in = 0, fd_out = 1, fd_squelch = 0\<rparr>, pctx = True, tctx = True, use_socket = True, devmgr = SP_ITEM\<rparr>"

lemma demo_opts_sel [simp]:
  "timeout_ms (demo_opts n) = 500" "tries (demo_opts n) = n" "verbose_on (demo_opts n) = False"
  by (simp_all add: demo_opts_def)

lemma demo_world_sel [simp]:
  "item demo_world = item sp_start" "n_clock demo_world = 0" "n_read demo_world = 0" "out demo_world = []"
  "sock_out demo_world = []" "n_alloc demo_world = 0" "rdr_cells demo_world = rdr_cells sp_start"
  "rdr_next demo_world = rdr_next sp_start" "readers (item sp_start) = 0" "subs (item sp_start) = 0"
  by (simp_all add: demo_world_def sp_world.defs sp_demo_defs)

lemma demo_call_ok:
  assumes "0 \<le> n" and "n < 1000000" and "0 < dstmax" and "dstmax < 2 ^ 31" and "dstmax \<le> length dst"
  shows "call_ok (play_env c ins) demo_dth (demo_opts n) dst dstmax demo_world"
proof -
  have "wf_idle demo_world" using wf_start by (simp add: wf_idle_def wf_world_def)
  then show ?thesis using assms
    by (simp add: call_ok_def demo_dth_def opts_ok_def play_env_def env_of_def)
qed

lemma demo_run:
  assumes "list_all input_ok ins" and "command_ok src inbytes" and "mild_table tbl"
  shows "exchange_ok (play_env c ins) (jv_cjson tbl) c src inbytes"
    "os_clock (play_env c ins) (n_clock demo_world) = Some (ms_after 0)"
    "script (play_env (demo_opts n) ins) (to_size (timeout_ms (demo_opts n))) (ms_after 0)
       (n_read demo_world) (Suc (n_clock demo_world)) ins"
  using play_env_ok [OF assms] play_env_script [OF assms(1), of 500] deadline_500
  by (simp_all add: play_env_def to_size_def)

section \<open>Properties of a call\<close>


definition demo_table :: "(byte list \<times> jv) list" where
  "demo_table = [(''ack'', jv_ack 0 7), (''other'', jv_rxstat 8 0 ''no''), (''rx'', jv_rxstat 7 0 ''hello''),
     (''nak'', jv_ack (-3) 0)]"

definition said :: "byte list \<Rightarrow> int \<Rightarrow> byte list option \<times> int" where
  "said s ms = (Some (s @ [NUL]), ms)"

definition demo_inputs :: "(byte list option \<times> int) list" where
  "demo_inputs = [(None, 500), said ''ack'' 600, said ''other'' 610, said ''rx'' 620]"

lemma input_ok_said [simp]:
  "input_ok (said s ms) \<longleftrightarrow> length s < 1024 \<and> NUL \<notin> set s \<and> LF \<notin> set s \<and> 0 \<le> ms \<and> ms < 2 ^ 31"
  by (auto simp: input_ok_def said_def frame_ok_snoc)

lemma demo_inputs_ok: "list_all input_ok demo_inputs" "command_ok ''ping'' 4"
  by (simp_all add: demo_inputs_def command_ok_def input_ok_def [of "(None, ms)" for ms])

lemma verdict_said:
  "verdict_of api p (fst (said s ms)) = proto p (decode api s)" "snd (said s ms) = ms"
  "verdict_of api p None = Retry"
  by (simp_all add: verdict_of_def said_def)

lemma dm_run_step:
  "dm_run api dstmax p g (x # ins) =
     (let v = verdict_of api p (fst x) in
      case next_of dstmax v (Some (g - snd x)) of
        Finish rc \<Rightarrow> Some (rc, 0, v, 1)
      | Again \<Rightarrow> map_option (\<lambda>(rc, k, v, n). (rc, k, v, Suc n))
                   (dm_run api dstmax (case v of Stay q \<Rightarrow> q | _ \<Rightarrow> p) (g - snd x) ins)
      | Resend \<Rightarrow> map_option (\<lambda>(rc, k, v, n). (rc, Suc k, v, Suc n))
                   (dm_run api dstmax Wait_ack (g - snd x) ins))"
  by (cases x) (simp only: dm_run.simps fst_conv snd_conv)

lemma demo_decode:
  "decode (jv_cjson demo_table) ''ack'' = M_ack 0 7"
  "decode (jv_cjson demo_table) ''nak'' = M_ack (-3) 0"
  "decode (jv_cjson demo_table) ''other'' = M_rxstat 8 (Some ''no'')"
  "decode (jv_cjson demo_table) ''rx'' = M_rxstat 7 (Some ''hello'')"
  by (simp_all add: decode_def demo_table_def decode_ack decode_rxstat)

lemma demo_mild [simp]: "mild_table demo_table" "mild_table []"
  by (simp_all add: mild_table_def demo_table_def decode_ack decode_rxstat small_err_def)

lemma demo_dm_run:
  "dm_run (jv_cjson demo_table) 8 Wait_ack (call_budget (demo_opts 10)) demo_inputs =
     Some (5, 1, Deliver ''hello'', 4)"
  "dm_run (jv_cjson demo_table) 4 Wait_ack (call_budget (demo_opts 10)) demo_inputs =
     Some (3, 1, Deliver ''hello'', 4)"
  by (simp_all add: demo_inputs_def dm_run_step [of _ _ _ _ "said s ms" for s ms] verdict_said demo_decode
      call_budget_def copied_def)


lemma next_of_positive:
  "next_of dstmax v b = Finish e \<Longrightarrow> 0 < e \<Longrightarrow> (\<And>x. v \<noteq> Stop x \<or> x \<le> 0) \<Longrightarrow> \<exists>t. v = Deliver t"
  by (cases v) (auto split: option.splits if_splits)

lemma dm_run_positive:
  "dm_run api dstmax p g ins = Some (rc, k, v, n) \<Longrightarrow> 0 < rc \<Longrightarrow> \<exists>t. v = Deliver t"
proof (induction ins arbitrary: p g k n)
  case Nil
  then show ?case by simp
next
  case (Cons x ins)
  let ?v = "verdict_of api p (fst x)"
  have s: "?v \<noteq> Stop e \<or> e \<le> 0" for e
    using proto_Stop [of p _ e] by (auto simp: verdict_of_def split: option.splits)
  show ?case
  proof (cases "next_of dstmax ?v (Some (g - snd x))")
    case (Finish e)
    with Cons.prems have v: "v = ?v" "rc = e" by (simp_all add: dm_run_step Let_def)
    with next_of_positive [OF Finish] Cons.prems(2) s show ?thesis by blast
  next
    case Again
    with Cons.prems obtain q n0 where "dm_run api dstmax q (g - snd x) ins = Some (rc, k, v, n0)"
      by (auto simp: dm_run_step Let_def)
    with Cons.IH Cons.prems(2) show ?thesis by blast
  next
    case Resend
    with Cons.prems obtain k0 n0 where "dm_run api dstmax Wait_ack (g - snd x) ins = Some (rc, k0, v, n0)"
      by (auto simp: dm_run_step Let_def)
    with Cons.IH Cons.prems(2) show ?thesis by blast
  qed
qed

text \<open>A positive result is the frame of the own session: when the call returns a positive
  code, some session \<open>s\<close> was opened by an ack without error, the last line received is the
  \<open>rxstat\<close> of \<open>s\<close> with a valid frame, no time-out lies in between, and the code and the
  destination are the length and the text of that frame, cut to the destination.\<close>

theorem cmd_devmgr_session:
  assumes ex: "exchange_ok E api c src inbytes" and call: "call_ok E dth c dst dstmax w"
    and ref: "os_clock E (n_clock w) = Some ref"
    and sc: "script E (to_size (timeout_ms c)) ref (n_read w) (Suc (n_clock w)) ins"
    and run: "dm_run api dstmax Wait_ack (call_budget c) ins \<noteq> None"
    and ret: "cmd_devmgr E api (Some dth) dst inbytes src dstmax w = Some (Inr (rc, dst', w'))" "0 < rc"
  shows "\<exists>s i n t. in_session api ins s i n \<and> n < length ins
    \<and> msg_at api ins n = Some (M_rxstat s (Some t))
    \<and> rc = int (min (length t) (dstmax - 1))
    \<and> take (nat rc) dst' = take (nat rc) t \<and> length dst' = length dst"
proof -
  obtain rc' k v n where r: "dm_run api dstmax Wait_ack (call_budget c) ins = Some (rc', k, v, n)"
    using run by (metis not_None_eq prod_cases4)
  from cmd_devmgr_run [OF ex call ref sc r] ret have eq: "rc' = rc" "dst' = copied_to dstmax v dst" by auto
  from dm_run_positive [OF r] eq ret obtain t where v: "v = Deliver t" by auto
  from dm_run_session [OF r [unfolded v]] eq obtain n' s i where
    "n' < length ins" "rc = int (copied t dstmax)" "msg_at api ins n' = Some (M_rxstat s (Some t))"
    "in_session api ins s i n'" by auto
  moreover have "dstmax \<le> length dst" "0 < dstmax" using call by (simp_all add: call_ok_def)
  ultimately show ?thesis using eq v
    by (intro exI [of _ s] exI [of _ i] exI [of _ n'] exI [of _ t]) (auto simp: copied_def min_def)
qed

theorem cmd_devmgr_session_witness:
  "\<exists>s i n t. in_session (jv_cjson demo_table) demo_inputs s i n \<and> n < 4
     \<and> msg_at (jv_cjson demo_table) demo_inputs n = Some (M_rxstat s (Some t)) \<and> length t = 5"
proof -
  have c: "call_ok (play_env (demo_opts 10) demo_inputs) demo_dth (demo_opts 10) (replicate 8 NUL) 8 demo_world"
    by (rule demo_call_ok) simp_all
  note d = demo_run [OF demo_inputs_ok demo_mild(1)]
  from cmd_devmgr_run [OF d(1) c d(2,3) demo_dm_run(1)] obtain w' where
    r: "cmd_devmgr (play_env (demo_opts 10) demo_inputs) (jv_cjson demo_table) (Some demo_dth)
      (replicate 8 NUL) 4 ''ping'' 8 demo_world = Some (Inr (5, copied_to 8 (Deliver ''hello'') (replicate 8 NUL), w'))"
    by blast
  have n: "dm_run (jv_cjson demo_table) 8 Wait_ack (call_budget (demo_opts 10)) demo_inputs \<noteq> None"
    by (simp add: demo_dm_run)
  have "length demo_inputs = 4" by (simp add: demo_inputs_def)
  moreover have "min (length t) 7 = 5 \<longleftrightarrow> length t = 5" for t :: "byte list" by (auto simp: min_def)
  ultimately show ?thesis
    using cmd_devmgr_session [OF d(1) c d(2,3) n r] by (simp add: ) metis
qed



lemma delivered_text:
  assumes "cjson_ok api" and "msg_at api ins n = Some (M_rxstat s (Some t))"
  shows "NUL \<notin> set t"
proof -
  from assms(2) obtain f where "decode api (butlast f) = M_rxstat s (Some t)"
    by (auto simp: msg_at_def)
  then obtain j where "rx_frame api j = Some t"
    by (auto simp: decode_def decode_json_def split: option.splits if_splits)
  from rx_frame_length [OF assms(1) this] show ?thesis by simp
qed

text \<open>C34: a frame as long as the destination or longer is cut without a terminator: the code is
  the size of the destination less one, but all \<open>dstmax\<close> bytes are filled from the frame and
  none is NUL, so that reading the destination as a C string leaves the buffer. It is shown for
  each script of what the rounds see (one line or a time-out in each wait, none outside, valid
  deadlines, a clock reading per round) with which the protocol delivers such a frame, for a JSON
  library as documented, acknowledgements whose error codes do not overflow, a socket that takes
  every byte, a reader that can be allocated, and a mutex the calls get when they ask for it.\<close>

theorem cmd_devmgr_long_frame:
  assumes ex: "exchange_ok E api c src inbytes" and call: "call_ok E dth c dst dstmax w"
    and ref: "os_clock E (n_clock w) = Some ref"
    and sc: "script E (to_size (timeout_ms c)) ref (n_read w) (Suc (n_clock w)) ins"
    and run: "dm_run api dstmax Wait_ack (call_budget c) ins = Some (rc, k, Deliver t, n)"
    and long: "dstmax \<le> length t" and size: "length dst = dstmax"
  shows "\<exists>dst' w'. cmd_devmgr E api (Some dth) dst inbytes src dstmax w
      = Some (Inr (int dstmax - 1, dst', w'))
    \<and> dst' = take dstmax t \<and> cstring dst' = Inl Out_of_bounds"
proof -
  from dm_run_session [OF run] obtain n' s where "msg_at api ins n' = Some (M_rxstat s (Some t))"
    and rc: "rc = int (copied t dstmax)" by blast
  moreover have "cjson_ok api" using ex by (simp add: exchange_ok_def)
  ultimately have nul: "NUL \<notin> set t" using delivered_text by blast
  have pos: "0 < dstmax" using call by (simp add: call_ok_def)
  then have c: "Suc (copied t dstmax) = dstmax" using long by (simp add: copied_def)
  then have "int (copied t dstmax) = int dstmax - 1" by simp
  moreover have "copied_to dstmax (Deliver t) dst = take dstmax t" using c long size by simp
  moreover have "cstring (take dstmax t) = Inl Out_of_bounds"
    using nul by (intro cstring_none) (meson in_set_takeD)
  ultimately show ?thesis using cmd_devmgr_run [OF ex call ref sc run] rc by auto
qed

theorem cmd_devmgr_long_frame_witness:
  "\<exists>w'. cmd_devmgr (play_env (demo_opts 10) demo_inputs) (jv_cjson demo_table) (Some demo_dth)
        (replicate 4 NUL) 4 ''ping'' 4 demo_world = Some (Inr (3, ''hell'', w'))
     \<and> cstring ''hell'' = Inl Out_of_bounds"
proof -
  have c: "call_ok (play_env (demo_opts 10) demo_inputs) demo_dth (demo_opts 10) (replicate 4 NUL) 4 demo_world"
    by (rule demo_call_ok) simp_all
  note d = demo_run [OF demo_inputs_ok demo_mild(1)]
  have "(4 :: nat) \<le> length ''hello''" by simp
  from cmd_devmgr_long_frame [OF d(1) c d(2,3) demo_dm_run(2) this] show ?thesis
    by (auto simp: numeral_nat)
qed

text \<open>C35: an error code near the ends of \<open>int\<close> in the acknowledgement is undefined behaviour: the
  negation of its magnitude less 256 is a signed overflow, whatever else the message holds.\<close>

theorem devmgr_message_overflow:
  assumes "cjson_ok api" and "dm_state m = 0"
    and "decode_json api j = M_ack e s" and "2 ^ 31 - 256 < \<bar>e\<bar>"
  shows "devmgr_message api dstmax j m = Inl Signed_overflow"
proof -
  obtain t where t: "sub_json_gettype api (Some j) ''ack'' = Inr t"
    "t \<noteq> None \<longleftrightarrow> str_field api (Some j) ''type'' = Some ''ack''"
    using gettype_eq [OF assms(1)] by blast
  have "str_field api (Some j) ''type'' = Some ''ack''"
    and e: "data_int api j ''err'' = Some e"
    using assms(3,4) by (auto simp: decode_json_def split: if_splits option.splits)
  with t obtain i where "t = Some i" by auto
  then show ?thesis using assms(2,4) t e
    by (auto simp: devmgr_message_def devmgr_ack_def getack_eq [OF assms(1)] ck_int_def int_ok_def Let_def)
qed

theorem devmgr_message_overflow_witness:
  "devmgr_message (jv_cjson []) 8 (jv_ack (- (2 ^ 31)) 1)
     \<lparr>dm_state = 0, dm_sid = -1, dm_timeout = 500, dm_dst = [], dm_dout = []\<rparr> = Inl Signed_overflow"
proof -
  have "decode_json (jv_cjson []) (jv_ack (- (2 ^ 31)) 1) = M_ack (- (2 ^ 31)) 1"
    by (simp add: decode_defs jv_ack_def)
  from devmgr_message_overflow [OF jv_cjson_ok _ this] show ?thesis by simp
qed


end
