(* ===== verification/Dterm_Spec.thy ===== *)
theory Dterm_Spec
  imports Dterm Devmgr_Exchange
begin

text \<open>
  What the command stream guarantees: the string helpers against their specifications, the cutting
  of a stream into commands, the result of a line, safety and termination of whole streams, and
  the inputs on which the code has no defined behaviour.
\<close>

section \<open>String helpers\<close>

definition san :: "byte \<Rightarrow> byte" where
  "san c = (if c = CR then LF else c)"

lemma list_update_at: "(p @ c # r)[length p := x] = p @ x # r"
  by simp

lemma sanitize_eq:
  "NUL \<notin> set s \<Longrightarrow> sub_str_sanitize (length s) (p @ s @ NUL # r) (length p) = Inr (p @ map san s @ NUL # r)"
proof (induction s arbitrary: p)
  case Nil
  then show ?case by simp
next
  case (Cons c s)
  from Cons.IH [of "p @ [san c]"] Cons.prems show ?case
    by (auto simp: san_def nth_append)
qed

text \<open>\<open>sub_str_sanitize\<close> turns every carriage return of a C string into a newline, changes
  nothing else, and stays within the block.\<close>

theorem sub_str_sanitize_spec:
  assumes "NUL \<notin> set s"
  shows "sub_str_sanitize (length s) (p @ s @ NUL # r) (length p)
    = Inr (p @ map (\<lambda>c. if c = CR then LF else c) s @ NUL # r)"
  using sanitize_eq [OF assms, of p r] by (simp add: san_def [abs_def])

theorem sub_str_sanitize_spec_witness:
  "sub_str_sanitize 4 (''ls'' @ [CR, LF, NUL, CR]) 0 = Inr (''ls'' @ [LF, LF, NUL, CR])"
  using sub_str_sanitize_spec [of "''ls'' @ [CR, LF]" "[]" "[CR]"] by (simp add: numeral_nat)

lemma mark_loop_eq:
  "NUL \<notin> set l \<Longrightarrow> LF \<notin> set l \<Longrightarrow> c = NUL \<or> c = LF \<Longrightarrow> length l \<le> left \<Longrightarrow>
     mark_loop left (p @ l @ c # r) (length p) = Inr (length p + length l)"
proof (induction l arbitrary: p left)
  case Nil
  then show ?case by (cases left) (auto simp: nth_append)
next
  case (Cons a l)
  then obtain k where k: "left = Suc k" by (cases left) auto
  from Cons.IH [of k "p @ [a]"] Cons.prems k show ?case by (auto simp: nth_append)
qed

lemma mark_eq:
  assumes "NUL \<notin> set l" and "LF \<notin> set l" and "c = NUL \<or> c = LF" and "length l \<le> left"
  shows "sub_str_mark (p @ l @ c # r) (length p) left = Inr (length l, p @ l @ NUL # r)"
  using assms(3) mark_loop_eq [OF assms, of p r]
  by (auto simp: sub_str_mark_def nth_append list_update_append)

lemma isspace_ctype: "isspace c \<Longrightarrow> ctype_ok T c"
  by (auto simp: isspace_def ctype_ok_def)

lemma burn_eq:
  "\<forall>c \<in> set s. isspace c \<Longrightarrow> \<not> isspace c \<Longrightarrow>
     burn_space T (s @ c # r) = (if ctype_ok T c then Inr (length s) else Inl Bad_argument)"
  by (induction s) (auto simp: isspace_ctype)

lemma isspace_marks [simp]: "\<not> isspace NUL" "isspace LF" "isspace (CHR '' '')"
  by (simp_all add: isspace_def)

section \<open>Hexadecimal output\<close>

lemma hex_nibbles:
  "unat (drop_bit 4 (b :: u8)) = unat b div 16" "unat (and b (0x0F :: u8)) = unat b mod 16"
proof -
  show "unat (drop_bit 4 b) = unat b div 16" by (simp add: drop_bit_eq_div unat_div)
  have "and b (0x0F :: u8) = take_bit 4 b" by (simp add: take_bit_eq_mask mask_eq_exp_minus_1)
  then have "and b (0x0F :: u8) = b mod 16" by (simp add: take_bit_eq_mod)
  then show "unat (and b (0x0F :: u8)) = unat b mod 16" by (simp only:) (simp add: unat_mod)
qed

text \<open>The reading of a hexadecimal text, most significant digit first.\<close>

definition hex_digit :: "byte \<Rightarrow> nat" where
  "hex_digit c = (let n = of_char c in if n < 65 then n - 48 else n - 55)"

fun unhex :: "byte list \<Rightarrow> nat list" where
  "unhex (h # l # cs) = (16 * hex_digit h + hex_digit l) # unhex cs"
| "unhex _ = []"

lemma nibble_cases: "n < 16 \<Longrightarrow> n \<in> {0,1,2,3,4,5,6,7,8,9,10,11,12,13,14,15 :: nat}"
  by (simp, presburger)

lemma hex_digit_convert: "n < 16 \<Longrightarrow> hex_digit (hex_convert ! n) = n"
  by (drule nibble_cases) (auto simp: hex_convert_def hex_digit_def)

definition hex_pair :: "u8 \<Rightarrow> byte list" where
  "hex_pair b = [hex_convert ! (unat b div 16), hex_convert ! (unat b mod 16)]"

lemma unat_u8: "unat (b :: u8) div 16 < 16" "unat b mod 16 < 16"
proof -
  have "unat b < 2 ^ LENGTH(8)" by (rule unsigned_less)
  then have "unat b < 256" by simp
  then show "unat b div 16 < 16" "unat b mod 16 < 16" by simp_all
qed

lemma unhex_pairs: "unhex (concat (map hex_pair bs)) = map unat bs"
  by (induction bs) (simp_all add: hex_pair_def hex_digit_convert unat_u8)

lemma sub_hexwrite_eq: "sub_hexwrite b w = Inr (2, emit (hex_pair b) w)"
proof -
  have "length hex_convert = 16" by (simp add: hex_convert_def)
  then show ?thesis by (simp add: sub_hexwrite_def hex_nibbles hex_pair_def unat_u8)
qed

lemma emit_emit [simp]: "emit t (emit s w) = emit (s @ t) w" "emit [] w = w"
  by (simp_all add: emit_def)

lemma hexstream_eq:
  "0 \<le> n \<Longrightarrow> n + 2 * int (length src) < 2 ^ 31 \<Longrightarrow>
     sub_hexstream (length src) src n w = Inr (n + 2 * int (length src), emit (concat (map hex_pair src)) w)"
proof (induction src arbitrary: n w)
  case Nil
  then show ?case by simp
next
  case (Cons b src)
  from Cons.IH [of "n + 2" "emit (hex_pair b) w"] Cons.prems show ?case
    by (simp add: sub_hexwrite_eq ck_int_def int_ok_def)
qed

text \<open>C40: the hexadecimal stream is exact: two digits are written for each byte, the number of
  digits is returned, and reading the digits back gives the bytes.\<close>

theorem sub_hexstream_roundtrip:
  assumes "2 * int (length src) < 2 ^ 31"
  shows "\<exists>s. sub_hexstream (length src) src 0 w = Inr (2 * int (length src), emit s w)
    \<and> length s = 2 * length src \<and> set s \<subseteq> set hex_convert \<and> unhex s = map unat src"
proof -
  have "length (concat (map hex_pair src)) = 2 * length src"
    by (induction src) (simp_all add: hex_pair_def)
  moreover have "set (concat (map hex_pair src)) \<subseteq> set hex_convert"
  proof -
    have "hex_convert ! n \<in> set hex_convert" if "n < 16" for n
      using that by (intro nth_mem) (simp add: hex_convert_def)
    then show ?thesis using unat_u8 by (auto simp: hex_pair_def)
  qed
  ultimately show ?thesis using hexstream_eq [of 0 src w] assms
    by (intro exI [of _ "concat (map hex_pair src)"]) (simp add: unhex_pairs)
qed

theorem sub_hexstream_roundtrip_witness:
  "\<exists>s. sub_hexstream 2 [0xA5, 0x0F] 0 demo_world = Inr (4, emit s demo_world) \<and> unhex s = [165, 15]"
proof -
  have n: "length [0xA5, 0x0F :: u8] = 2" by simp
  show ?thesis using sub_hexstream_roundtrip [of "[0xA5, 0x0F]" demo_world, unfolded n]
    by (auto simp del: sub_hexstream.simps)
qed

section \<open>The handle\<close>

text \<open>A handle is set up whole or not at all: \<open>dterm_init\<close> never releases what it does not
  own; a result of 0 means that the handle holds the descriptors and the device manager it was
  given and one talloc context, which \<open>dterm_deinit\<close> releases; any other result leaves no
  context behind.\<close>

theorem dterm_init_deinit:
  "\<exists>rc dth' live. dterm_init ok dth i out' sock mgr {} = Inr (rc, dth', live)
    \<and> (rc = 0 \<longleftrightarrow> dth \<noteq> None \<and> mgr \<noteq> SP_NULL \<and> ok)
    \<and> (if rc = 0
       then \<exists>d. dth' = Some d \<and> fd_in (fd d) = i \<and> fd_out (fd d) = out' \<and> use_socket d = sock
          \<and> devmgr d = mgr \<and> live = {Ctx_p} \<and> dterm_deinit d live = Inr {}
       else live = {})"
  by (cases dth) (auto simp: dterm_init_def dterm_deinit_def talloc_free_def Let_def)

section \<open>The commands of a stream\<close>

text \<open>
  A stream of text \<open>s\<close>, already without carriage returns and followed by the bytes \<open>r\<close>, as the list
  of its commands: for each the number of bytes left in the stream, the command, and the block the
  command starts, which goes on after its terminator.
\<close>

function cmd_blocks :: "byte list \<Rightarrow> byte list \<Rightarrow> (nat \<times> byte list \<times> byte list) list" where
  "cmd_blocks s r =
     (if s = [] then []
      else
        (let s1 = dropWhile isspace s;
             l = takeWhile (\<lambda>c. c \<noteq> LF) s1;
             s2 = drop (Suc (length l)) s1
         in (length s1, l, l @ NUL # (if l = s1 then r else s2 @ NUL # r)) # cmd_blocks s2 r))"
  by pat_completeness auto
termination
proof (relation "measure (\<lambda>(s, r). length s)")
  fix s s1 l s2 r :: "byte list"
  assume a: "s \<noteq> []" "s1 = dropWhile isspace s" "s2 = drop (Suc (length l)) s1"
  have "length s1 \<le> length s" unfolding a(2) by (rule length_dropWhile_le)
  moreover have "length s > 0" using a(1) by simp
  moreover have "length s2 = length s1 - Suc (length l)" using a(3) by simp
  ultimately have "length s2 < length s" by linarith
  then show "((s2, r), (s, r)) \<in> measure (\<lambda>(s, r). length s)" by simp
qed simp

declare cmd_blocks.simps [simp del]

definition commands :: "byte list \<Rightarrow> byte list list" where
  "commands s = map (\<lambda>(n, l, b). l) (cmd_blocks (map san s) [])"

text \<open>The first byte of a command is in the domain of \<open>isspace\<close>, and so for all commands of a text.\<close>

definition head_ok :: "term_env \<Rightarrow> byte list \<Rightarrow> bool" where
  "head_ok T l \<longleftrightarrow> (case l of [] \<Rightarrow> True | c # _ \<Rightarrow> ctype_ok T c)"

definition heads_ok :: "term_env \<Rightarrow> byte list \<Rightarrow> bool" where
  "heads_ok T s \<longleftrightarrow> list_all (head_ok T) (commands s)"

text \<open>The commands one after another, up to the first that fails or has no defined behaviour.\<close>

definition echoed :: "cliopt_t \<Rightarrow> nat \<Rightarrow> byte list \<Rightarrow> world \<Rightarrow> world" where
  "echoed c n l w =
     (if verbose_on c
      then emit (E_MAG @ ''['' @ dec_nat (nat (int n mod 2 ^ 32)) @ '']<< '' @ E_NRM @ l @ [LF]) w else w)"

definition failed_line :: "int \<Rightarrow> byte list" where
  "failed_line rc = E_RED @ ''ERR: '' @ E_NRM @ ''Command Returned '' @ dec_int rc @ [LF]"

fun run_cmds ::
    "term_env \<Rightarrow> 'j cjson \<Rightarrow> dterm_handle_t \<Rightarrow> cliopt_t \<Rightarrow> (nat \<times> byte list \<times> byte list) list \<Rightarrow> world
     \<Rightarrow> (int \<times> world) res option" where
  "run_cmds T api dth c [] w = Some (Inr (0, w))"
| "run_cmds T api dth c ((n, l, b) # cs) w =
     (if \<not> head_ok T l then Some (Inl Bad_argument)
      else
        obind (sub_proc_lineinput T api (dth\<lparr>tctx := t_pool T\<rparr>) (Some None) b (int (length l)) (echoed c n l w))
          (\<lambda>(bytesout, cmdrc, w).
          case cmdrc of
            Some (Some rc) \<Rightarrow>
              if rc < 0 then Some (Inr (-4, emit (failed_line rc) w)) else run_cmds T api dth c cs w
          | _ \<Rightarrow> Some (Inl Uninit_read)))"

lemma obind_simps [simp]:
  "obind None f = None" "obind (Some (Inl e)) f = Some (Inl e)" "obind (Some (Inr x)) f = f x"
  by (simp_all add: obind_def)

lemma obind_assoc: "obind (obind x f) g = obind x (\<lambda>v. obind (f v) g)"
  by (cases x) (auto simp: obind_def split: sum.splits)

lemma obind_cong [cong]: "x = y \<Longrightarrow> (\<And>v. y = Some (Inr v) \<Longrightarrow> f v = g v) \<Longrightarrow> obind x f = obind y g"
  by (cases y) (auto simp: obind_def split: sum.splits)

text \<open>One pass of the loop on the text \<open>s\<close> at the cursor.\<close>

definition rest_state :: "byte list \<Rightarrow> byte list \<Rightarrow> nat \<Rightarrow> int \<times> nat" where
  "rest_state s1 l cur = (int (length s1) - (int (length l) + 1), Suc (cur + length l))"

lemma cmdstream_pass_eq:
  fixes r s :: "byte list"
  assumes o: "opts (t_env T) = Some c" and s: "NUL \<notin> set s" "length s < 2 ^ 31"
  defines "s1 \<equiv> dropWhile isspace s"
  defines "l \<equiv> takeWhile (\<lambda>c. c \<noteq> LF) s1"
  defines "b \<equiv> l @ NUL # (if l = s1 then r else drop (Suc (length l)) s1 @ NUL # r)"
  defines "sp \<equiv> takeWhile isspace s"
  shows "cmdstream_pass T api dth (p @ s @ NUL # r) (int (length s)) (length p) w =
    (if \<not> head_ok T l then Some (Inl Bad_argument)
     else obind (sub_proc_lineinput T api (dth\<lparr>tctx := t_pool T\<rparr>) (Some None) b (int (length l))
             (echoed c (length s1) l w))
      (\<lambda>(bytesout, cmdrc, w).
      case cmdrc of
        Some (Some rc) \<Rightarrow>
          Some (Inr (if rc < 0 then (None, dth\<lparr>tctx := False\<rparr>, p @ sp @ b, emit (failed_line rc) w)
            else (Some (rest_state s1 l (length p + length sp)), dth\<lparr>tctx := False\<rparr>, p @ sp @ b, w)))
      | _ \<Rightarrow> Some (Inl Uninit_read)))"
proof -
  have ss: "s = sp @ s1" by (simp add: sp_def s1_def)
  obtain c0 r0 where c0: "s1 @ NUL # r = c0 # r0" "\<not> isspace c0" "ctype_ok T c0 = head_ok T l"
  proof (cases s1)
    case Nil
    then show thesis using that [of NUL r] by (simp add: l_def head_ok_def ctype_ok_def)
  next
    case (Cons a t)
    then have a: "\<not> isspace a" by (metis hd_dropWhile list.distinct(1) list.sel(1) s1_def)
    then have "a \<noteq> LF" by auto
    with Cons a that [of a "t @ NUL # r"] show thesis by (simp add: l_def head_ok_def)
  qed
  have burn: "burn_space T (drop (length p) (p @ s @ NUL # r))
      = (if head_ok T l then Inr (length sp) else Inl Bad_argument)"
  proof -
    have "\<forall>x \<in> set sp. isspace x" unfolding sp_def by (blast dest: set_takeWhileD)
    from burn_eq [OF this c0(2), of T r0] show ?thesis by (simp add: ss c0(1,3))
  qed
  have lmem: "NUL \<notin> set l" "LF \<notin> set l" "length l \<le> length s1"
  proof -
    show "length l \<le> length s1" unfolding l_def by (rule length_takeWhile_le)
    show "LF \<notin> set l" unfolding l_def by (blast dest: set_takeWhileD)
    have "set l \<subseteq> set s" unfolding l_def ss by (auto dest: set_takeWhileD)
    then show "NUL \<notin> set l" using s(1) by blast
  qed
  have szs: "to_size (int (length s1)) = length s1"
    using s(2) by (simp add: to_size_def ss)
  have dd: "dth\<lparr>tctx := x, tctx := False\<rparr> = dth\<lparr>tctx := False\<rparr>" for x by simp
  have mark: "sub_str_mark (p @ s @ NUL # r) (length p + length sp) (length s1) = Inr (length l, p @ sp @ b)"
  proof (cases "l = s1")
    case True
    from mark_eq [OF lmem(1,2) _ lmem(3), of NUL "p @ sp" r] show ?thesis
      by (simp add: ss b_def True)
  next
    case False
    have sl: "s1 = l @ dropWhile (\<lambda>c. c \<noteq> LF) s1" unfolding l_def by simp
    with False obtain a t where at: "dropWhile (\<lambda>c. c \<noteq> LF) s1 = a # t"
      by (cases "dropWhile (\<lambda>c. c \<noteq> LF) s1") auto
    then have "a = LF" using hd_dropWhile [of "\<lambda>c. c \<noteq> LF" s1] by simp
    with sl at have t: "s1 = l @ LF # t" by simp
    have "sub_str_mark ((p @ sp) @ l @ LF # (t @ NUL # r)) (length (p @ sp)) (length s1)
      = Inr (length l, (p @ sp) @ l @ NUL # (t @ NUL # r))"
      by (rule mark_eq [OF lmem(1,2) _ lmem(3)]) simp
    then show ?thesis using t False by (simp add: ss b_def)
  qed
  have ti: "to_int (int (length l)) = int (length l)"
    using s(2) lmem(3) ss by (intro to_int_id) (simp add: int_ok_def)
  have cb: "drop (length p + length sp) (p @ sp @ b) = b" by simp
  have str: "cstring b = Inr l" unfolding b_def by (rule cstring_append [OF lmem(1)])
  have n1: "int (length s) - int (length sp) = int (length s1)" by (simp add: ss)
  have n2: "nat (int (length p + length sp + length l) + 1) = Suc (length p + length sp + length l)"
    by simp
  show ?thesis
    by (cases "head_ok T l") (simp_all only: cmdstream_pass_def if_True if_False not_True_eq_False not_False_eq_True
        burn szs mark ti dd cb str n1 n2 Let_def obind_simps prod.case o cliopt_getpoolsize_def
        cliopt_isverbose_def deref_def option.case rbind_Inr echoed_def [symmetric]
        failed_line_def [symmetric] rest_state_def of_nat_add [symmetric])
qed

lemma cmdstream_loop_unfold:
  "cmdstream_loop T api dth stream stream_sz cur w =
     (if stream_sz > 0 then
        obind (cmdstream_pass T api dth stream stream_sz cur w) (\<lambda>(next, dth, stream, w).
          case next of
            None \<Rightarrow> Some (Inr (-4, dth, stream, w))
          | Some (stream_sz, cur) \<Rightarrow> cmdstream_loop T api dth stream stream_sz cur w)
      else Some (Inr (0, dth, stream, w)))"
  by (subst cmdstream_loop.simps) (simp add: obind_def cong: sum.case_cong)

definition result_of :: "(int \<times> 'a \<times> 'b \<times> world) res option \<Rightarrow> (int \<times> world) res option" where
  "result_of x = obind x (\<lambda>(rc, dth, m, w). Some (Inr (rc, w)))"

lemma result_of_Inl: "result_of x = Some (Inl e) \<Longrightarrow> x = Some (Inl e)"
  by (auto simp: result_of_def obind_def split: option.splits sum.splits bind_splits)

lemma cmdstream_loop_eq:
  assumes o: "opts (t_env T) = Some c"
  shows "NUL \<notin> set s \<Longrightarrow> length s < 2 ^ 31 \<Longrightarrow> dth\<lparr>tctx := t_pool T\<rparr> = d\<lparr>tctx := t_pool T\<rparr> \<Longrightarrow>
    result_of (cmdstream_loop T api dth (p @ s @ NUL # r) (int (length s)) (length p) w)
      = run_cmds T api d c (cmd_blocks s r) w"
proof (induction s r arbitrary: p dth w rule: cmd_blocks.induct)
  case (1 s r)
  show ?case
  proof (cases "s = []")
    case True
    then show ?thesis by (simp add: cmdstream_loop_unfold cmd_blocks.simps [of "[]"] result_of_def)
  next
    case False
    define s1 where "s1 = dropWhile isspace s"
    define l where "l = takeWhile (\<lambda>c. c \<noteq> LF) s1"
    define s2 where "s2 = drop (Suc (length l)) s1"
    define sp where "sp = takeWhile isspace s"
    define b where "b = l @ NUL # (if l = s1 then r else s2 @ NUL # r)"
    have ss: "s = sp @ s1" by (simp add: sp_def s1_def)
    have s2: "NUL \<notin> set s2" "length s2 < 2 ^ 31"
      using 1(2,3) unfolding ss s2_def by (auto dest: in_set_dropD)
    have ih: "result_of (cmdstream_loop T api dth' (q @ s2 @ NUL # r) (int (length s2)) (length q) w')
        = run_cmds T api d c (cmd_blocks s2 r) w'"
      if "dth'\<lparr>tctx := t_pool T\<rparr> = d\<lparr>tctx := t_pool T\<rparr>" for q dth' w'
      using 1(1) [OF False s1_def l_def s2_def s2 that] .
    have rest: "result_of (cmdstream_loop T api (dth\<lparr>tctx := False\<rparr>) (p @ sp @ b)
         (fst (rest_state s1 l (length p + length sp))) (snd (rest_state s1 l (length p + length sp))) w')
      = run_cmds T api d c (cmd_blocks s2 r) w'" for w'
    proof (cases "l = s1")
      case True
      then show ?thesis
        by (simp add: rest_state_def s2_def cmdstream_loop_unfold cmd_blocks.simps [of "[]"] result_of_def)
    next
      case l: False
      then have "length l < length s1"
        unfolding l_def by (metis le_neq_implies_less length_takeWhile_le takeWhile_eq_take take_all_iff le_refl)
      then have "int (length s1) - (int (length l) + 1) = int (length s2)" by (simp add: s2_def)
      moreover have "(dth\<lparr>tctx := False\<rparr>)\<lparr>tctx := t_pool T\<rparr> = d\<lparr>tctx := t_pool T\<rparr>" using 1(4) by simp
      ultimately show ?thesis using ih [of "dth\<lparr>tctx := False\<rparr>" "p @ sp @ l @ [NUL]" w'] l
        by (simp add: rest_state_def b_def add.assoc)
    qed
    have blk: "cmd_blocks s r = (length s1, l, b) # cmd_blocks s2 r"
      by (subst cmd_blocks.simps)
         (simp only: False if_False Let_def s1_def [symmetric] l_def [symmetric] s2_def [symmetric]
           b_def [symmetric])
    have pass: "cmdstream_pass T api dth (p @ s @ NUL # r) (int (length s)) (length p) w =
      (if \<not> head_ok T l then Some (Inl Bad_argument)
       else obind (sub_proc_lineinput T api (d\<lparr>tctx := t_pool T\<rparr>) (Some None) b (int (length l))
               (echoed c (length s1) l w))
        (\<lambda>(bytesout, cmdrc, w).
        case cmdrc of
          Some (Some rc) \<Rightarrow>
            Some (Inr (if rc < 0 then (None, dth\<lparr>tctx := False\<rparr>, p @ sp @ b, emit (failed_line rc) w)
              else (Some (rest_state s1 l (length p + length sp)), dth\<lparr>tctx := False\<rparr>, p @ sp @ b, w)))
        | _ \<Rightarrow> Some (Inl Uninit_read)))"
      using cmdstream_pass_eq [OF o 1(2,3), of api dth p r w] 1(4)
      by (simp only: s1_def l_def s2_def sp_def b_def)
    have pos: "0 < int (length s)" using False by simp
    obtain sz cur where rs: "rest_state s1 l (length p + length sp) = (sz, cur)"
      by (cases "rest_state s1 l (length p + length sp)")
    show ?thesis
      unfolding blk run_cmds.simps cmdstream_loop_unfold [of _ _ _ _ "int (length s)"] pass
      using pos rest
      by (auto simp: rs result_of_def obind_assoc split: option.splits intro!: obind_cong)
  qed
qed

lemma dterm_cmdstream_eq:
  assumes "opts (t_env T) = Some c" and "NUL \<notin> set s" and "length s < 2 ^ 31"
  shows "result_of (dterm_cmdstream T api dth (Some (s @ NUL # r)) w)
    = run_cmds T api dth c (cmd_blocks (map san s) r) w"
proof -
  have n: "to_int (int (length s)) = int (length s)" "to_size (int (length s)) = length s"
    using assms(3) by (auto intro!: to_int_id simp: int_ok_def to_size_def)
  have "NUL \<notin> set (map san s)" using assms(2) by (auto simp: san_def split: if_splits)
  from cmdstream_loop_eq [OF assms(1) this, of dth dth api "[]" r w] assms(3) have
    l: "result_of (cmdstream_loop T api dth (map san s @ NUL # r) (int (length s)) 0 w)
      = run_cmds T api dth c (cmd_blocks (map san s) r) w" by simp
  show ?thesis unfolding l [symmetric]
    using sanitize_eq [OF assms(2), of "[]" r] n cstrlen_append [OF assms(2), of r]
    by (simp add: dterm_cmdstream_def result_of_def obind_assoc case_prod_beta)
qed

text \<open>C16: a stream is the sequence of its commands: for every text, every device manager and
  every JSON library, \<open>dterm_cmdstream\<close> hands the lines of the text, each without the white space
  ahead of it, to \<open>sub_proc_lineinput\<close> one after another, and stops with -4 at the first whose
  code is negative, else with 0 after the last; the only other way to stop is a command whose
  behaviour is undefined, its own or that of \<open>isspace\<close> on its first byte, when that is 128 or more
  and not in the domain of the platform's \<open>isspace\<close>.\<close>

theorem dterm_cmdstream_commands:
  assumes "opts (t_env T) = Some c" and "NUL \<notin> set s" and "length s < 2 ^ 31"
  shows "result_of (dterm_cmdstream T api dth (Some (s @ NUL # r)) w)
    = run_cmds T api dth c (cmd_blocks (map san s) r) w"
  by (rule dterm_cmdstream_eq [OF assms])

section \<open>A line that is not a JSON object\<close>

lemma dec_nat_length: "n < 10 ^ k \<Longrightarrow> 0 < k \<Longrightarrow> length (dec_nat n) \<le> k"
proof (induction k arbitrary: n)
  case 0
  then show ?case by simp
next
  case (Suc k)
  show ?case
  proof (cases "10 \<le> n")
    case many: True
    then have "k \<noteq> 0" using Suc.prems by (cases k) auto
    moreover have "n div 10 < 10 ^ k" using Suc.prems(1) by (simp add: less_mult_imp_div_less)
    ultimately have "length (dec_nat (n div 10)) \<le> k" using Suc.IH by simp
    with many show ?thesis by (subst dec_nat.simps) simp
  qed (subst dec_nat.simps, simp)
qed

lemma dec_int_length: "int_ok i \<Longrightarrow> length (dec_int i) \<le> 11"
proof -
  assume i: "int_ok i"
  have "nat (- i) < 10 ^ 10" "nat i < 10 ^ 10" using i by (auto simp: int_ok_def)
  then show ?thesis using dec_nat_length [of "nat (- i)" 10] dec_nat_length [of "nat i" 10]
    by (simp add: dec_int_def)
qed

lemma error_reply_length: "int_ok rc \<Longrightarrow> length (error_reply rc) \<le> 1022 \<and> error_reply rc \<noteq> []"
  using dec_int_length [of rc] by (simp add: error_reply_def OTTERCAT_PARAM_NAME_def)

lemma snprintf_eq:
  assumes "length s < n" and "n \<le> length m"
  shows "snprintf m n s = Inr (int (length s), s @ NUL # drop (Suc (length s)) m)"
  using assms by (simp add: snprintf_def)

text \<open>What a code makes of the output and of the result of a line.\<close>

definition line_result :: "int \<Rightarrow> world \<Rightarrow> int \<times> int option option \<times> world" where
  "line_result rc w =
     (if rc < 0 then (int (length (error_reply rc)), Some (Some rc), emit (error_reply rc) w)
      else (rc, Some (Some rc), w))"

lemma plain_line_eq:
  assumes api: "\<not> cJSON_IsObject api (cJSON_Parse api l)" and l: "NUL \<notin> set l"
    and buf: "length (t_buf T) = 1024"
    and cmd: "cmd_devmgr (t_env T) api (Some dth) ((t_buf T)[0 := NUL]) n (l @ NUL # r) 1024 w
      = Some (Inr (rc, dst, w'))"
    and rc: "int_ok rc" "length dst = 1024"
  shows "sub_proc_lineinput T api dth (Some v) (l @ NUL # r) n w = Some (Inr (line_result rc w'))"
proof -
  have "to_size (1024 - 0) = 1024" by (simp add: to_size_def)
  moreover have "snprintf dst (1024 - 1) (error_reply rc)
      = Inr (int (length (error_reply rc)), error_reply rc @ NUL # drop (Suc (length (error_reply rc))) dst)"
    using error_reply_length [OF rc(1)] rc(2) by (intro snprintf_eq) simp_all
  ultimately have "line_command T api dth (Some v) False 0 (t_buf T) (l @ NUL # r) n w
      = Some (Inr (line_result rc w'))"
    using buf cmd rc error_reply_length [OF rc(1)]
    by (simp add: line_command_def line_result_def)
  then show ?thesis using api cstring_append [OF l, of r]
    by (simp add: sub_proc_lineinput_def)
qed

text \<open>An environment in which every command ends: the conditions of \<open>sub_devmgr_socket_total\<close>, with
  those on the clock for a call that begins at any reading, so that the clock may never fail.\<close>

definition safe_env :: "env \<Rightarrow> 'j cjson \<Rightarrow> cliopt_t \<Rightarrow> bool" where
  "safe_env E api c \<longleftrightarrow>
     cjson_ok api \<and> mild_env api (os_sp E) \<and> opts E = Some c \<and> opts_ok c \<and> env_ok (os_sp E)
     \<and> calls_return (os_sp E) \<and> length (os_stack E) = 1024 \<and> (\<exists>K. \<forall>k. clock_ok E K c k)"

definition idle_world :: "world \<Rightarrow> bool" where
  "idle_world w \<longleftrightarrow> wf_idle w \<and> readers (item w) = 0"

lemma idle_emit [simp]: "idle_world (emit s w) = idle_world w"
  by (simp add: idle_world_def)

lemma idle_echoed [simp]: "idle_world (echoed c n l w) = idle_world w"
  by (simp add: echoed_def)

lemma cmd_devmgr_ends:
  assumes E: "safe_env E api c" and w: "idle_world w"
    and src: "0 \<le> n" "n < 2 ^ 31" "nat n \<le> length src"
    and dst: "0 < dstmax" "dstmax < 2 ^ 31" "dstmax \<le> length dst"
  shows "\<exists>rc dst' w'. cmd_devmgr E api (Some dth) dst n src dstmax w = Some (Inr (rc, dst', w'))
    \<and> int_ok rc \<and> rc < int dstmax \<and> length dst' = length dst \<and> idle_world w'"
proof (cases "devmgr dth = SP_ITEM \<and> use_socket dth")
  case True
  from E obtain K where "clock_ok E K c (n_clock w)" by (auto simp: safe_env_def)
  moreover have "cjson_ok api" "mild_env api (os_sp E)" "opts E = Some c" "opts_ok c" "env_ok (os_sp E)"
    "calls_return (os_sp E)" "length (os_stack E) = 1024" "wf_idle w" "readers (item w) = 0"
    using E w by (simp_all add: safe_env_def idle_world_def)
  ultimately have "\<exists>rc dst' w'. sub_devmgr_socket E api dth dst n src dstmax w = Some (Inr (rc, dst', w'))
      \<and> - (2 ^ 31) \<le> rc \<and> rc < int dstmax \<and> length dst' = length dst
      \<and> wf_idle w' \<and> readers (item w') = 0 \<and> rdr_cells w' = Map.empty"
    using sub_devmgr_socket_ends [OF _ _ _ _ _ _ _ _ conjunct1 [OF True] src dst] by blast
  with dst(2) True show ?thesis
    by (fastforce simp: cmd_devmgr_def idle_world_def int_ok_def)
next
  case False
  then show ?thesis using w dst(1) sp_handle_t.exhaust [of "devmgr dth"]
    by (auto simp: cmd_devmgr_def int_ok_def)
qed

text \<open>A stream of plain lines: none of its commands is a JSON object.\<close>

definition plain :: "'j cjson \<Rightarrow> byte list \<Rightarrow> bool" where
  "plain api s \<longleftrightarrow> list_all (\<lambda>l. \<not> cJSON_IsObject api (cJSON_Parse api l)) (commands s)"

lemma cmd_blocks_shape:
  "NUL \<notin> set s \<Longrightarrow> (n, l, b) \<in> set (cmd_blocks s r) \<Longrightarrow>
     NUL \<notin> set l \<and> LF \<notin> set l \<and> set l \<subseteq> set s \<and> length l \<le> length s \<and> (\<exists>r'. b = l @ NUL # r')"
proof (induction s r rule: cmd_blocks.induct)
  case (1 s r)
  define s1 where "s1 = dropWhile isspace s"
  define l0 where "l0 = takeWhile (\<lambda>c. c \<noteq> LF) s1"
  define s2 where "s2 = drop (Suc (length l0)) s1"
  show ?case
  proof (cases "s = []")
    case True
    then show ?thesis using 1(3) by (simp add: cmd_blocks.simps [of "[]"])
  next
    case False
    have blk: "cmd_blocks s r = (length s1, l0, l0 @ NUL # (if l0 = s1 then r else s2 @ NUL # r)) # cmd_blocks s2 r"
      by (subst cmd_blocks.simps)
         (simp only: False if_False Let_def s1_def [symmetric] l0_def [symmetric] s2_def [symmetric])
    have sub: "set s1 \<subseteq> set s" unfolding s1_def by (auto dest: set_dropWhileD)
    have len: "length s1 \<le> length s" unfolding s1_def by (rule length_dropWhile_le)
    have sub2: "set s2 \<subseteq> set s" using sub unfolding s2_def by (auto dest: in_set_dropD)
    with 1(2) have s2: "NUL \<notin> set s2" by blast
    from 1(3) blk consider "(n, l, b) = (length s1, l0, l0 @ NUL # (if l0 = s1 then r else s2 @ NUL # r))"
      | "(n, l, b) \<in> set (cmd_blocks s2 r)" by auto
    then show ?thesis
    proof cases
      case 1
      have "set l0 \<subseteq> set s1" "LF \<notin> set l0" "length l0 \<le> length s1"
        unfolding l0_def by (auto dest: set_takeWhileD simp: length_takeWhile_le)
      then show ?thesis using 1 sub len \<open>NUL \<notin> set s\<close> by auto
    next
      case 2
      from 1(1) [OF False s1_def l0_def s2_def s2 2] len sub2 show ?thesis
        by (auto simp: s2_def)
    qed
  qed
qed

lemma cmd_blocks_numbered:
  "map (\<lambda>(n, l, b). (n, l)) (cmd_blocks s r) = map (\<lambda>(n, l, b). (n, l)) (cmd_blocks s r')"
proof (induction s r rule: cmd_blocks.induct)
  case (1 s r)
  show ?case
  proof (cases "s = []")
    case True
    then show ?thesis by (simp add: cmd_blocks.simps [of "[]"])
  next
    case False
    define s1 where "s1 = dropWhile isspace s"
    define l0 where "l0 = takeWhile (\<lambda>c. c \<noteq> LF) s1"
    define s2 where "s2 = drop (Suc (length l0)) s1"
    have blk: "cmd_blocks s x = (length s1, l0, l0 @ NUL # (if l0 = s1 then x else s2 @ NUL # x)) # cmd_blocks s2 x" for x
      by (subst cmd_blocks.simps)
         (simp only: False if_False Let_def s1_def [symmetric] l0_def [symmetric] s2_def [symmetric])
    from 1 [OF False s1_def l0_def s2_def] show ?thesis by (simp add: blk)
  qed
qed

lemma cmd_blocks_lines: "map (\<lambda>(n, l, b). l) (cmd_blocks s r) = map (\<lambda>(n, l, b). l) (cmd_blocks s r')"
proof -
  have m: "map (\<lambda>(n, l, b). l) xs = map snd (map (\<lambda>(n, l, b). (n, l)) xs)" for xs :: "(nat \<times> byte list \<times> byte list) list"
    by (induction xs) auto
  show ?thesis by (simp only: m cmd_blocks_numbered [of s r r'])
qed

lemma plain_blocks:
  "plain api s \<Longrightarrow> (n, l, b) \<in> set (cmd_blocks (map san s) r) \<Longrightarrow>
     \<not> cJSON_IsObject api (cJSON_Parse api l)"
proof -
  assume "plain api s" "(n, l, b) \<in> set (cmd_blocks (map san s) r)"
  moreover from this(2) have "l \<in> set (map (\<lambda>(n, l, b). l) (cmd_blocks (map san s) r))" by force
  ultimately show ?thesis
    unfolding plain_def commands_def cmd_blocks_lines [of "map san s" "[]" r] list_all_iff by blast
qed

lemma heads_blocks:
  "heads_ok T s \<Longrightarrow> (n, l, b) \<in> set (cmd_blocks (map san s) r) \<Longrightarrow> head_ok T l"
proof -
  assume "heads_ok T s" "(n, l, b) \<in> set (cmd_blocks (map san s) r)"
  moreover from this(2) have "l \<in> set (map (\<lambda>(n, l, b). l) (cmd_blocks (map san s) r))" by force
  ultimately show ?thesis
    unfolding heads_ok_def commands_def cmd_blocks_lines [of "map san s" "[]" r] list_all_iff by blast
qed

text \<open>An ASCII text is in the domain of \<open>isspace\<close> on every platform.\<close>

lemma ascii_heads:
  assumes "NUL \<notin> set s" and "list_all (\<lambda>c. (of_char c :: nat) < 128) s"
  shows "heads_ok T s"
proof -
  have n: "NUL \<notin> set (map san s)" using assms(1) by (auto simp: san_def split: if_splits)
  have a: "ctype_ok T c" if "c \<in> set (map san s)" for c
    using that assms(2) by (auto simp: san_def ctype_ok_def list_all_iff split: if_splits)
  have "head_ok T l" if "(m, l, b) \<in> set (cmd_blocks (map san s) [])" for m l b
    using cmd_blocks_shape [OF n that] a by (auto simp: head_ok_def split: list.splits)
  then show ?thesis by (auto simp: heads_ok_def commands_def list_all_iff)
qed

lemma run_cmds_ends:
  assumes E: "safe_env (t_env T) api c" and buf: "length (t_buf T) = 1024"
  shows "list_all (\<lambda>(n, l, b). NUL \<notin> set l \<and> length l < 2 ^ 31 \<and> (\<exists>r. b = l @ NUL # r)
      \<and> head_ok T l \<and> \<not> cJSON_IsObject api (cJSON_Parse api l)) cs \<Longrightarrow> idle_world w \<Longrightarrow>
    \<exists>rc w'. run_cmds T api dth c cs w = Some (Inr (rc, w')) \<and> rc \<in> {0, -4} \<and> idle_world w'"
proof (induction cs arbitrary: w)
  case Nil
  then show ?case by simp
next
  case (Cons x cs)
  obtain n l r where x: "x = (n, l, l @ NUL # r)" and l: "NUL \<notin> set l" "length l < 2 ^ 31"
    and api: "\<not> cJSON_IsObject api (cJSON_Parse api l)" and hd: "head_ok T l"
    using Cons.prems(1) by (cases x) auto
  have "0 \<le> int (length l)" "int (length l) < 2 ^ 31" "nat (int (length l)) \<le> length (l @ NUL # r)"
    using l(2) by simp_all
  from cmd_devmgr_ends [OF E _ this, of "echoed c n l w" 1024 "(t_buf T)[0 := NUL]" "dth\<lparr>tctx := t_pool T\<rparr>"]
    Cons.prems(2) buf
  obtain rc dst w' where cmd: "cmd_devmgr (t_env T) api (Some (dth\<lparr>tctx := t_pool T\<rparr>)) ((t_buf T)[0 := NUL])
      (int (length l)) (l @ NUL # r) 1024 (echoed c n l w) = Some (Inr (rc, dst, w'))"
    and rc: "int_ok rc" "length dst = 1024" and w': "idle_world w'" by auto
  from plain_line_eq [OF api l(1) buf cmd rc] have
    s: "sub_proc_lineinput T api (dth\<lparr>tctx := t_pool T\<rparr>) (Some None) (l @ NUL # r) (int (length l)) (echoed c n l w)
      = Some (Inr (line_result rc w'))" .
  show ?case
  proof (cases "rc < 0")
    case True
    then show ?thesis using s w' hd by (simp add: x line_result_def)
  next
    case False
    with s hd Cons.IH [of w'] Cons.prems(1) w' show ?thesis by (simp add: x line_result_def)
  qed
qed

lemma dterm_cmdstream_ends:
  assumes E: "safe_env (t_env T) api c" and buf: "length (t_buf T) = 1024"
    and s: "NUL \<notin> set s" "length s < 2 ^ 31" "plain api s" "heads_ok T s" and w: "idle_world w"
  shows "\<exists>rc w'. result_of (dterm_cmdstream T api dth (Some (s @ NUL # r)) w) = Some (Inr (rc, w'))
    \<and> rc \<in> {0, -4} \<and> idle_world w'"
proof -
  have n: "NUL \<notin> set (map san s)" using s(1) by (auto simp: san_def split: if_splits)
  have "list_all (\<lambda>(n, l, b). NUL \<notin> set l \<and> length l < 2 ^ 31 \<and> (\<exists>r. b = l @ NUL # r)
      \<and> head_ok T l \<and> \<not> cJSON_IsObject api (cJSON_Parse api l)) (cmd_blocks (map san s) r)"
    using cmd_blocks_shape [OF n] plain_blocks [OF s(3)] heads_blocks [OF s(4)] s(2) by (fastforce simp: list_all_iff)
  from run_cmds_ends [OF E buf this w] dterm_cmdstream_eq [of T c s api dth r w] E s(1,2)
  show ?thesis by (simp add: safe_env_def)
qed


text \<open>A terminal on a platform where \<open>isspace\<close> has the smallest domain.\<close>

definition demo_term :: "env \<Rightarrow> term_env" where
  "demo_term E = \<lparr>t_env = E, t_buf = replicate 1024 NUL, t_pool = True, t_ctype = (\<lambda>_. False)\<rparr>"

lemma demo_term_sel [simp]:
  "t_env (demo_term E) = E" "t_buf (demo_term E) = replicate 1024 NUL" "t_pool (demo_term E) = True"
  by (simp_all add: demo_term_def)

definition ticking :: env where
  "ticking = (play_env (demo_opts 1) [])\<lparr>os_clock := steady_clock\<rparr>"

lemma demo_idle: "idle_world demo_world"
proof -
  have "wf_idle demo_world" using wf_start by (simp add: wf_idle_def wf_world_def)
  then show ?thesis by (simp add: idle_world_def)
qed

lemma ticking_safe: "mild_table tbl \<Longrightarrow> safe_env ticking (jv_cjson tbl) (demo_opts 1)"
proof -
  assume m: "mild_table tbl"
  have "env_ok (env_of [])" by (rule env_ok_env_of) simp
  moreover have "clock_ok ticking 1 (demo_opts 1) k" for k
    by (rule steady_clock_ok) (simp_all add: ticking_def call_budget_def)
  moreover have "calls_return (env_of [])" by (simp add: calls_return_def env_of_def)
  ultimately show ?thesis using mild_tableD(2) [OF m]
    by (auto simp: safe_env_def ticking_def play_env_def opts_ok_def)
qed

theorem dterm_cmdstream_commands_witness:
  "result_of (dterm_cmdstream (demo_term ticking) (jv_cjson []) demo_dth
       (Some (''ls'' @ [CR, LF] @ '' ps'' @ [NUL, NUL])) demo_world)
     = run_cmds (demo_term ticking) (jv_cjson []) demo_dth (demo_opts 1)
         [(7, ''ls'', ''ls'' @ [NUL, LF] @ '' ps'' @ [NUL, NUL]), (2, ''ps'', ''ps'' @ [NUL, NUL])] demo_world"
proof -
  let ?s = "''ls'' @ [CR, LF] @ '' ps''"
  have "cmd_blocks (map san ?s) [NUL] =
     [(7, ''ls'', ''ls'' @ [NUL, LF] @ '' ps'' @ [NUL, NUL]), (2, ''ps'', ''ps'' @ [NUL, NUL])]"
    by (simp add: cmd_blocks.simps san_def isspace_def Let_def)
  with dterm_cmdstream_commands [of "demo_term ticking" "demo_opts 1" ?s "jv_cjson []" demo_dth "[NUL]" demo_world]
  show ?thesis by (simp add: ticking_def play_env_def)
qed


text \<open>The result of a plain line: the code of the device manager goes to the caller unchanged,
  a negative code is announced on the output by one line of JSON that holds it, and the number of
  bytes returned is the one of that line, or the code.\<close>

theorem sub_proc_lineinput_plain:
  assumes E: "safe_env (t_env T) api c" and buf: "length (t_buf T) = 1024" and w: "idle_world w"
    and l: "NUL \<notin> set l" "length l < 2 ^ 31" and api: "\<not> cJSON_IsObject api (cJSON_Parse api l)"
  shows "\<exists>rc dst w'. cmd_devmgr (t_env T) api (Some dth) ((t_buf T)[0 := NUL]) (int (length l))
        (l @ NUL # r) 1024 w = Some (Inr (rc, dst, w'))
    \<and> sub_proc_lineinput T api dth (Some v) (l @ NUL # r) (int (length l)) w
      = Some (Inr (if rc < 0
                   then (int (length (error_reply rc)), Some (Some rc), emit (error_reply rc) w')
                   else (rc, Some (Some rc), w')))"
proof -
  have "0 \<le> int (length l)" "int (length l) < 2 ^ 31" "nat (int (length l)) \<le> length (l @ NUL # r)"
    using l(2) by simp_all
  from cmd_devmgr_ends [OF E w this, of 1024 "(t_buf T)[0 := NUL]" dth] buf
  obtain rc dst w' where cmd: "cmd_devmgr (t_env T) api (Some dth) ((t_buf T)[0 := NUL])
      (int (length l)) (l @ NUL # r) 1024 w = Some (Inr (rc, dst, w'))"
    and rc: "int_ok rc" "length dst = 1024" by auto
  from plain_line_eq [OF api l(1) buf cmd rc, of v] cmd show ?thesis
    by (auto simp: line_result_def)
qed

theorem sub_proc_lineinput_plain_witness:
  "\<exists>b rc w'. sub_proc_lineinput (demo_term ticking) (jv_cjson []) demo_dth (Some None) (''ls'' @ [NUL]) 2 demo_world
     = Some (Inr (b, Some (Some rc), w'))"
proof -
  have E: "safe_env (t_env (demo_term ticking)) (jv_cjson []) (demo_opts 1)"
    using ticking_safe [OF demo_mild(2)] by simp
  from sub_proc_lineinput_plain [OF E _ demo_idle, of "''ls''" demo_dth "[]" None]
  show ?thesis by (auto split: if_splits)
qed

section \<open>One-line streams\<close>

definition one_line :: "byte list \<Rightarrow> bool" where
  "one_line s \<longleftrightarrow> s \<noteq> [] \<and> NUL \<notin> set s \<and> LF \<notin> set s \<and> CR \<notin> set s \<and> \<not> isspace (hd s) \<and> length s < 2 ^ 31"

lemma san_id: "CR \<notin> set s \<Longrightarrow> map san s = s"
  by (intro map_idI) (auto simp: san_def)

lemma one_line_head:
  assumes "one_line s"
  shows "dropWhile isspace (s @ r) = s @ r" "takeWhile (\<lambda>c. c \<noteq> LF) s = s"
    "takeWhile (\<lambda>c. c \<noteq> LF) (s @ LF # r) = s"
proof -
  obtain c t where s: "s = c # t" "\<not> isspace c" using assms by (cases s) (auto simp: one_line_def)
  then show "dropWhile isspace (s @ r) = s @ r" by simp
  have "\<forall>x \<in> set s. x \<noteq> LF" using assms by (auto simp: one_line_def)
  then show "takeWhile (\<lambda>c. c \<noteq> LF) s = s" "takeWhile (\<lambda>c. c \<noteq> LF) (s @ LF # r) = s"
    by (simp_all add: takeWhile_eq_all_conv takeWhile_append2)
qed

lemma cmd_blocks_Nil [simp]: "cmd_blocks [] r = []"
  by (subst cmd_blocks.simps) simp

lemma one_line_block:
  assumes "one_line s"
  shows "cmd_blocks s r = [(length s, s, s @ NUL # r)]"
proof -
  have d: "dropWhile isspace s = s" using one_line_head(1) [OF assms, of "[]"] by simp
  have ne: "s \<noteq> []" using assms by (simp add: one_line_def)
  have e: "drop (Suc (length s)) s = []" by simp
  show ?thesis
    by (subst cmd_blocks.simps)
       (simp only: ne if_False if_True Let_def d one_line_head(2) [OF assms] e cmd_blocks_Nil refl)
qed

lemma one_line_stream:
  assumes "opts (t_env T) = Some c" and "one_line s"
  shows "result_of (dterm_cmdstream T api dth (Some (s @ NUL # r)) w)
    = run_cmds T api dth c [(length s, s, s @ NUL # r)] w"
  using dterm_cmdstream_eq [OF assms(1), of s api dth r w] assms(2) one_line_block [OF assms(2), of r]
  by (simp add: one_line_def san_id)

text \<open>White space after the last newline is a command of its own, an empty one: the stream
  of a command, a newline and white space has two commands, and sending the second puts nothing
  on the socket, so that the exchange for it can only wait for messages nobody asked for.\<close>

theorem dterm_cmdstream_phantom:
  assumes "one_line s" and "sp \<noteq> []" and "\<forall>c \<in> set (map san sp). isspace c"
  shows "commands (s @ LF # sp) = [s, []] \<and> sp_sendcmd E SP_ITEM (Some b) 0 w = Inr (0, w)"
proof -
  have m: "map san (s @ LF # sp) = s @ LF # map san sp"
    using assms(1) by (simp add: one_line_def san_id) (simp add: san_def)
  have sp: "dropWhile isspace (map san sp) = []" using assms(3) by (subst dropWhile_eq_Nil_conv)
  have e: "cmd_blocks (map san sp) [] = [(0, [], [NUL])]"
    by (subst cmd_blocks.simps) (use assms(2) in \<open>simp add: sp cmd_blocks.simps [of "[]"] Let_def\<close>)
  have ne: "s \<noteq> s @ LF # map san sp" by simp
  have "cmd_blocks (s @ LF # map san sp) [] =
     (length (s @ LF # map san sp), s, s @ NUL # (map san sp @ [NUL])) # cmd_blocks (map san sp) []"
    by (subst cmd_blocks.simps)
       (simp add: one_line_head [OF assms(1)] Let_def del: map_map)
  then have "commands (s @ LF # sp) = [s, []]" unfolding commands_def m e by simp
  then show ?thesis by (simp add: sp_sendcmd_def)
qed

theorem dterm_cmdstream_phantom_witness:
  "commands (''ls'' @ [LF, CR, LF]) = [''ls'', []]"
proof -
  have "one_line ''ls''" by (simp add: one_line_def isspace_def)
  moreover have "\<forall>c \<in> set (map san [CR, LF]). isspace c" by (simp add: san_def)
  ultimately show ?thesis using dterm_cmdstream_phantom [of "''ls''" "[CR, LF]"] by auto
qed

text \<open>C38: a JSON object without a string \<open>type\<close> or a string \<open>data\<close> makes the stream read a
  variable that was never written: the line is skipped without a result code, and the code is
  then compared with zero. (The line must get as far: \<open>isspace\<close> must be defined on its first byte,
  as it is on every ASCII character.)\<close>

theorem dterm_cmdstream_uninit:
  assumes "opts (t_env T) = Some c" and "one_line s" and hd: "head_ok T s"
    and "cJSON_Parse api s = Some j" and "cJSON_IsObject api (Some j)"
    and "\<not> cJSON_IsString api (cJSON_GetItem api (Some j) ''type'')
       \<or> \<not> cJSON_IsString api (cJSON_GetItem api (Some j) ''data'')"
  shows "dterm_cmdstream T api dth (Some (s @ NUL # r)) w = Some (Inl Uninit_read)"
proof -
  have "NUL \<notin> set s" using assms(2) by (simp add: one_line_def)
  from cstring_append [OF this, of r] have
    "sub_proc_lineinput T api (dth\<lparr>tctx := t_pool T\<rparr>) (Some None) (s @ NUL # r) n w' = Some (Inr (0, Some None, w'))"
    for n w' using assms(4-6) by (auto simp: sub_proc_lineinput_def Let_def)
  then have "result_of (dterm_cmdstream T api dth (Some (s @ NUL # r)) w) = Some (Inl Uninit_read)"
    using one_line_stream [OF assms(1,2), of api dth r w] hd by simp
  then show ?thesis by (rule result_of_Inl)
qed

theorem dterm_cmdstream_uninit_witness:
  "dterm_cmdstream (demo_term ticking) (jv_cjson [(''{}'', J_obj [])]) demo_dth (Some (''{}'' @ [NUL])) demo_world
     = Some (Inl Uninit_read)"
  using dterm_cmdstream_uninit [of "demo_term ticking" "demo_opts 1" "''{}''" "jv_cjson [(''{}'', J_obj [])]"
      "J_obj []" demo_dth "[]" demo_world]
  by (simp add: one_line_def isspace_def head_ok_def ctype_ok_def ticking_def play_env_def)

section \<open>JSON requests\<close>

text \<open>A line that is a JSON request with the strings \<open>ty\<close> and \<open>dat\<close>.\<close>

definition json_request :: "'j cjson \<Rightarrow> byte list \<Rightarrow> byte list \<Rightarrow> byte list \<Rightarrow> bool" where
  "json_request api s ty dat \<longleftrightarrow>
     (case cJSON_Parse api s of None \<Rightarrow> False
      | Some j \<Rightarrow> cJSON_IsObject api (Some j) \<and> str_field api (Some j) ''type'' = Some ty
                 \<and> str_field api (Some j) ''data'' = Some dat)"

lemma str_field_SomeE:
  assumes "cjson_ok api" and "str_field api obj name = Some t"
  obtains i where "cJSON_GetItem api obj name = Some i" "cJSON_IsString api (Some i)"
    "valuestring api i = Some t"
  using assms cjson_okD(1) [OF assms(1)]
  by (cases "cJSON_GetItem api obj name") (auto simp: str_field_def Let_def split: if_splits)

lemma snprintf_total:
  assumes "length m = 1024"
  shows "\<exists>m'. snprintf m (1024 - 1) s = Inr (int (length s), m') \<and> length m' = 1024"
  using assms by (auto simp: snprintf_def)

lemma json_request_eq:
  assumes api: "cjson_ok api" and o: "opts (t_env T) = Some c" and s: "NUL \<notin> set s"
    and req: "json_request api s ty dat" and buf: "length (t_buf T) = 1024"
  shows "\<exists>hdr tx. length hdr = 1024 \<and>
    sub_proc_lineinput T api dth cmdrc (s @ NUL # r) n w =
      line_command T api dth cmdrc True (19 + int (length ty)) hdr (dat @ [NUL]) n (emit tx w)"
proof -
  from req obtain j where j: "cJSON_Parse api s = Some j" "cJSON_IsObject api (Some j)"
    "str_field api (Some j) ''type'' = Some ty" "str_field api (Some j) ''data'' = Some dat"
    by (auto simp: json_request_def split: option.splits)
  obtain t where t: "cJSON_GetItem api (Some j) ''type'' = Some t" "cJSON_IsString api (Some t)"
    "valuestring api t = Some ty" using str_field_SomeE [OF api j(3)] by blast
  obtain d where d: "cJSON_GetItem api (Some j) ''data'' = Some d" "cJSON_IsString api (Some d)"
    "valuestring api d = Some dat" using str_field_SomeE [OF api j(4)] by blast
  define h where "h = ''{\"type\":\"'' @ ty @ ''\", \"data\":''"
  have hl: "length h = 19 + length ty" by (simp add: h_def)
  from snprintf_total [OF buf, of h] obtain m where
    m: "snprintf (t_buf T) (1024 - 1) h = Inr (int (length h), m)" "length m = 1024" by blast
  have m1: "snprintf (t_buf T) (1024 - 1) (''{\"type\":\"'' @ ty @ ''\", \"data\":'') = Inr (19 + int (length ty), m)"
    using m(1) hl unfolding h_def by simp
  have v: "\<exists>tx. VCLIENT_PRINTF (Some c) x w = Inr (emit tx w)" for x
    by (cases "verbose_on c")
       (auto simp: VCLIENT_PRINTF_def cliopt_isverbose_def intro: exI [of _ "[]"])
  then obtain tx where "VCLIENT_PRINTF (Some c) (''JSON Request ('' @ dec_int n @ '' bytes): ''
      @ upto_nul n (s @ NUL # r) @ [LF]) w = Inr (emit tx w)" by blast
  then have "line_header T api (Some t) (Some d) (s @ NUL # r) n w
      = Inr (dat @ [NUL], 19 + int (length ty), m, emit tx w)"
    using o t d m1 by (simp add: line_header_def)
  then show ?thesis using j t d m(2) cstring_append [OF s, of r]
    by (intro exI [of _ m] exI [of _ tx]) (simp add: sub_proc_lineinput_def Let_def)
qed

text \<open>C37: a JSON request whose \<open>type\<close> has 1005 bytes or more writes outside the protocol buffer:
  \<open>snprintf\<close> cuts the header, but the cursor is advanced by the length the header would have. (The
  line must get as far: \<open>isspace\<close> must be defined on its first byte, as on every ASCII character.)\<close>

theorem dterm_cmdstream_long_type:
  assumes "cjson_ok api" and "opts (t_env T) = Some c" and "length (t_buf T) = 1024"
    and "one_line s" and "json_request api s ty dat" and "1005 \<le> length ty" and hd: "head_ok T s"
  shows "dterm_cmdstream T api dth (Some (s @ NUL # r)) w = Some (Inl Out_of_bounds)"
proof -
  have "NUL \<notin> set s" using assms(4) by (simp add: one_line_def)
  note req = json_request_eq [OF assms(1,2) this assms(5,3)]
  have "sub_proc_lineinput T api d cr (s @ NUL # r) n w' = Some (Inl Out_of_bounds)" for d cr n w'
    using req [of d cr r n w'] assms(6) by (auto simp: line_command_def st_def Let_def)
  then have "result_of (dterm_cmdstream T api dth (Some (s @ NUL # r)) w) = Some (Inl Out_of_bounds)"
    using one_line_stream [OF assms(2,4), of api dth r w] hd by simp
  then show ?thesis by (rule result_of_Inl)
qed

theorem dterm_cmdstream_long_type_witness:
  "dterm_cmdstream (demo_term ticking)
     (jv_cjson [(''{T}'', J_obj [(''type'', J_str (replicate 1005 (CHR ''x''))), (''data'', J_str [])])])
     demo_dth (Some (''{T}'' @ [NUL])) demo_world = Some (Inl Out_of_bounds)"
proof -
  let ?x = "replicate 1005 (CHR ''x'')"
  let ?api = "jv_cjson [(''{T}'', J_obj [(''type'', J_str ?x), (''data'', J_str [])])]"
  have "json_request ?api ''{T}'' ?x []"
    by (simp add: json_request_def str_field_def Let_def)
  with dterm_cmdstream_long_type [of ?api "demo_term ticking" "demo_opts 1" "''{T}''" ?x "[]" demo_dth "[]" demo_world]
  show ?thesis by (simp add: one_line_def isspace_def head_ok_def ctype_ok_def ticking_def play_env_def)
qed

text \<open>C36: a JSON request is sent with the wrong length: the command is the \<open>data\<close> string, but the
  size is the one of the whole line, so whenever the line is at least two bytes longer than the
  string (and the quotes and braces around it make it so) the code reads beyond its end. It takes
  a call that comes as far as sending: a JSON library as documented, options whose budget fits an
  \<open>int\<close>, a reader that can be allocated, the mutex of the handle for that, and the first clock
  reading, and a first byte that \<open>isspace\<close> is defined on; nothing is asked of the peer.\<close>

theorem dterm_cmdstream_json_overread:
  assumes api: "cjson_ok api" and o: "opts (t_env T) = Some c" "opts_ok c"
    and buf: "length (t_buf T) = 1024" and s: "one_line s" and hd: "head_ok T s"
    and req: "json_request api s ty dat" and ty: "length ty < 1005"
    and long: "length dat + 2 \<le> length s"
    and w: "idle_world w" and dth: "devmgr dth = SP_ITEM" "use_socket dth"
    and sys: "os_alloc (os_sp (t_env T)) (n_alloc w)" "os_user (os_sp (t_env T)) (n_read w)"
      "os_clock (t_env T) (n_clock w) = Some ref"
  shows "dterm_cmdstream T api dth (Some (s @ NUL # r)) w = Some (Inl Out_of_bounds)"
proof -
  let ?E = "t_env T" and ?n = "int (length s)"
  note e = api o
  have sn: "NUL \<notin> set s" "length s < 2 ^ 31" using s by (simp_all add: one_line_def)
  have sz: "to_size ?n = length s" using sn(2) by (simp add: to_size_def)
  have snd: "devmgr_send ?E SP_ITEM (dat @ [NUL]) ?n m w' = Inl Out_of_bounds" for m w'
    using long by (auto simp: devmgr_send_def sz sp_sendcmd_def ld_def)
  have cmd: "cmd_devmgr ?E api (Some d) dst ?n (dat @ [NUL]) dstmax w' = Some (Inl Out_of_bounds)"
    if "devmgr d = SP_ITEM" "use_socket d" "idle_world w'" "n_alloc w' = n_alloc w" "n_clock w' = n_clock w"
      "n_read w' = n_read w"
    for d dst dstmax w'
  proof -
    have wf: "wf_idle w'" "readers (item w') = 0" using that(3) by (simp_all add: idle_world_def)
    have "n_clock (with_reader w') = n_clock w'" by (simp add: with_reader_def)
    then show ?thesis
      using that sp_reader_create_eq [OF wf, of "os_sp ?E"] sys devmgr_budget_eq [OF e(3)] e(2)
      by (simp add: cmd_devmgr_def sub_devmgr_socket_def devmgr_loop_round devmgr_round_def snd)
  qed
  have "sub_proc_lineinput T api (dth\<lparr>tctx := t_pool T\<rparr>) cr (s @ NUL # r) ?n w' = Some (Inl Out_of_bounds)"
    if "idle_world w'" "n_alloc w' = n_alloc w" "n_clock w' = n_clock w" "n_read w' = n_read w" for cr w'
  proof -
    from json_request_eq [OF e(1,2) sn(1) req buf, of "dth\<lparr>tctx := t_pool T\<rparr>" cr r ?n w'] obtain hdr tx where
      h: "length hdr = 1024" and
      l: "sub_proc_lineinput T api (dth\<lparr>tctx := t_pool T\<rparr>) cr (s @ NUL # r) ?n w' =
        line_command T api (dth\<lparr>tctx := t_pool T\<rparr>) cr True (19 + int (length ty)) hdr (dat @ [NUL]) ?n (emit tx w')"
      by blast
    have off: "nat (19 + int (length ty)) < 1024" using ty by simp
    have "n_alloc (emit tx w') = n_alloc w'" by (simp add: emit_def)
    then show ?thesis unfolding l using h off dth that cmd
      by (simp add: line_command_def Let_def)
  qed
  moreover have "n_alloc (echoed c n l w) = n_alloc w" "n_clock (echoed c n l w) = n_clock w"
    "n_read (echoed c n l w) = n_read w" for n l
    by (simp_all add: echoed_def emit_def)
  moreover have "idle_world (echoed c n l w)" for n l using w by simp
  ultimately have "result_of (dterm_cmdstream T api dth (Some (s @ NUL # r)) w) = Some (Inl Out_of_bounds)"
    using one_line_stream [OF e(2) s, of api dth r w] hd by simp
  then show ?thesis by (rule result_of_Inl)
qed

theorem dterm_cmdstream_json_overread_witness:
  "dterm_cmdstream (demo_term ticking)
     (jv_cjson [(''{JSON of ping}'', J_obj [(''type'', J_str ''text''), (''data'', J_str ''ping'')])])
     demo_dth (Some (''{JSON of ping}'' @ [NUL])) demo_world = Some (Inl Out_of_bounds)"
proof -
  let ?api = "jv_cjson [(''{JSON of ping}'', J_obj [(''type'', J_str ''text''), (''data'', J_str ''ping'')])]"
  have req: "json_request ?api ''{JSON of ping}'' ''text'' ''ping''"
    by (simp add: json_request_def str_field_def Let_def)
  have one: "one_line ''{JSON of ping}''" by (simp add: one_line_def isspace_def)
  have hd: "head_ok (demo_term ticking) ''{JSON of ping}''" by (simp add: head_ok_def ctype_ok_def)
  have d: "devmgr demo_dth = SP_ITEM" "use_socket demo_dth" by (simp_all add: demo_dth_def)
  have s: "os_alloc (os_sp (t_env (demo_term ticking))) (n_alloc demo_world)"
    "os_user (os_sp (t_env (demo_term ticking))) (n_read demo_world)"
    "os_clock (t_env (demo_term ticking)) (n_clock demo_world) = Some (ms_after 0)"
    by (simp_all add: ticking_def play_env_def env_of_def steady_clock_def)
  have o: "opts (t_env (demo_term ticking)) = Some (demo_opts 1)" "opts_ok (demo_opts 1)"
    by (simp_all add: ticking_def play_env_def opts_ok_def)
  show ?thesis
    using dterm_cmdstream_json_overread [OF jv_cjson_ok o _ one hd req _ _ demo_idle d s, of "[]"] by simp
qed

end
