(* ===== verification/Main_Spec.thy ===== *)
theory Main_Spec
  imports Main_Program Dterm_Spec
begin

text \<open>
  What the program does with its arguments, its input and its exit code.
\<close>

section \<open>Reading a line\<close>

text \<open>The bytes a read loop takes from a stream of single bytes: up to the first newline or NUL,
  which is included, and at most \<open>n\<close>.\<close>

fun first_line :: "nat \<Rightarrow> byte list \<Rightarrow> byte list" where
  "first_line 0 cs = []"
| "first_line (Suc n) [] = []"
| "first_line (Suc n) (c # cs) = c # (if c = LF \<or> c = NUL then [] else first_line n cs)"

definition bytes_in :: "byte list \<Rightarrow> (int \<times> byte) list" where
  "bytes_in cs = map (\<lambda>c. (1, c)) cs"

lemma readline_loop_eq:
  "k + n \<le> length buf \<Longrightarrow> 0 \<le> rc \<Longrightarrow>
     \<exists>rc'. 0 \<le> rc' \<and> readline_loop n rc (bytes_in cs) buf k =
       Inr (rc', k + length (first_line n cs),
            take k buf @ first_line n cs @ drop (k + length (first_line n cs)) buf)"
proof (induction n cs arbitrary: k rc buf rule: first_line.induct)
  case (3 n c cs)
  let ?b = "buf[k := c]"
  have k: "k < length buf" using 3(2) by simp
  have t: "take (Suc k) ?b = take k buf @ [c]" using k by (simp add: take_Suc_conv_app_nth)
  show ?case
  proof (cases "c = LF \<or> c = NUL")
    case True
    then show ?thesis using k by (auto simp: bytes_in_def upd_conv_take_nth_drop)
  next
    case False
    from 3(1) [OF False, of "Suc k" ?b 1] 3(2) False k t show ?thesis
      by (auto simp: bytes_in_def)
  qed
qed (auto simp: bytes_in_def)

lemma first_line_bound: "length (first_line n cs) \<le> n"
  by (induction n cs rule: first_line.induct) auto

lemma sub_readline_eq:
  assumes "n \<le> length buf"
  shows "sub_readline (bytes_in cs) buf n =
    Inr (int (length (first_line n cs)), length (first_line n cs),
         first_line n cs @ drop (length (first_line n cs)) buf)"
  using readline_loop_eq [of 0 n buf 0 cs] assms by (auto simp: sub_readline_def)

text \<open>\<open>sub_readline\<close> stores exactly the first line of its input, newline or NUL included and
  cut to the limit, at the start of the buffer, changes nothing behind it (it does not terminate
  the string), and returns its length.\<close>

theorem sub_readline_spec:
  assumes "n \<le> length buf"
  shows "sub_readline (bytes_in cs) buf n =
    Inr (int (length (first_line n cs)), length (first_line n cs),
         first_line n cs @ drop (length (first_line n cs)) buf)"
  by (rule sub_readline_eq [OF assms])

theorem sub_readline_spec_witness:
  "sub_readline (bytes_in (''ls'' @ [LF] @ ''ps'')) ''......'' 6 = Inr (3, 3, ''ls'' @ [LF] @ ''...'')"
  using sub_readline_spec [of 6 "''......''" "''ls'' @ [LF] @ ''ps''"] by (simp add: eval_nat_numeral)

section \<open>The command string\<close>

lemma join_args_eq:
  "length m = cur + sum_list (map (\<lambda>a. length a + 1) as) \<Longrightarrow>
     join_args as m cur = Inr (take cur m @ concat (map (\<lambda>a. a @ '' '') as))"
proof (induction as arbitrary: m cur)
  case Nil
  then show ?case by simp
next
  case (Cons a as)
  let ?m1 = "take cur m @ a @ NUL # drop (Suc (cur + length a)) m"
  let ?m2 = "take cur m @ a @ CHR '' '' # drop (Suc (cur + length a)) m"
  have cur: "cur + length a < length m" "cur \<le> length m" using Cons.prems by simp_all
  then have "st ?m1 (cur + length a) (CHR '' '') = Inr ?m2"
    by (simp add: list_update_append)
  moreover have "join_args as ?m2 (Suc (cur + length a))
      = Inr (take (Suc (cur + length a)) ?m2 @ concat (map (\<lambda>a. a @ '' '') as))"
    by (rule Cons.IH) (use Cons.prems in simp)
  moreover have "take (Suc (cur + length a)) ?m2 = take cur m @ a @ '' ''"
    using cur by simp
  ultimately show ?case using cur by (simp add: stpcpy_def)
qed

lemma inline_command_eq:
  assumes "inline_args argv \<noteq> []" and "p_malloc P (cmdstr_size argv) = Some m"
    and "length m = cmdstr_size argv"
  shows "inline_command P argv = Inr (Some (Some (concat (map (\<lambda>a. a @ '' '') (inline_args argv)))))"
proof -
  have "cmdstr_size argv \<noteq> 0" using assms(1) by (cases "inline_args argv") (auto simp: cmdstr_size_def)
  then show ?thesis using assms join_args_eq [of m 0 "inline_args argv"]
    by (simp add: inline_command_def cmdstr_size_def)
qed

section \<open>What a stream leaves behind\<close>

lemma obind_Inr: "obind x f = Some (Inr v) \<longleftrightarrow> (\<exists>u. x = Some (Inr u) \<and> f u = Some (Inr v))"
  by (auto simp: obind_def split: option.splits sum.splits bind_splits)

lemma nul_update:
  assumes "NUL \<in> set m" and "m ! i \<noteq> NUL \<or> x = NUL"
  shows "NUL \<in> set (m[i := x])"
proof -
  from assms(1) obtain k where k: "k < length m" "m ! k = NUL" by (auto simp: in_set_conv_nth)
  then have "m[i := x] ! k = NUL" using assms(2) by (cases "k = i") auto
  then show ?thesis using k(1) by (metis length_list_update nth_mem)
qed

lemma sanitize_nul:
  "sub_str_sanitize n m str = Inr m' \<Longrightarrow> NUL \<in> set m \<Longrightarrow> NUL \<in> set m'"
proof (induction n arbitrary: m str)
  case (Suc n)
  then show ?case
    by (auto simp: ld_def st_def nul_update split: if_splits)
qed (auto simp: ld_def split: if_splits)

lemma mark_nul: "sub_str_mark m str n = Inr (k, m') \<Longrightarrow> NUL \<in> set m \<Longrightarrow> NUL \<in> set m'"
  by (cases "mark_loop n m str") (auto simp: sub_str_mark_def ld_def st_def nul_update split: if_splits)

definition left_over :: "dterm_handle_t \<Rightarrow> byte list \<Rightarrow> dterm_handle_t \<Rightarrow> byte list \<Rightarrow> bool" where
  "left_over dth m dth' m' \<longleftrightarrow>
     (NUL \<in> set m \<longrightarrow> NUL \<in> set m') \<and> pctx dth' = pctx dth \<and> (\<not> tctx dth \<longrightarrow> \<not> tctx dth')"

lemma cmdrc_read:
  "(case c of None \<Rightarrow> Some (Inl e) | Some None \<Rightarrow> Some (Inl e) | Some (Some rc) \<Rightarrow> Some (Inr (f rc)))
     = Some (Inr v) \<longleftrightarrow> (\<exists>rc. c = Some (Some rc) \<and> v = f rc)"
  by (auto split: option.splits)

lemma cmdstream_pass_leaves:
  "cmdstream_pass T api dth m sz cur w = Some (Inr (next, dth', m', w')) \<Longrightarrow>
     (NUL \<in> set m \<longrightarrow> NUL \<in> set m') \<and> pctx dth' = pctx dth \<and> \<not> tctx dth'"
  by (auto simp: cmdstream_pass_def Let_def obind_Inr cmdrc_read mark_nul split: if_splits)

lemma cmdstream_loop_leaves:
  assumes "cmdstream_loop T api dth m sz cur w = Some x"
  shows "case x of Inl e \<Rightarrow> True | Inr (rc, dth', m', w') \<Rightarrow> left_over dth m dth' m'"
proof (rule cmdstream_loop.raw_induct [OF _ assms, where P = "\<lambda>T api dth m sz cur w x.
    case x of Inl e \<Rightarrow> True | Inr (rc, dth', m', w') \<Rightarrow> left_over dth m dth' m'"])
  fix loop T api dth m sz cur w x
  assume ih: "\<And>T api dth m sz cur w x. loop T api dth m sz cur w = Some x \<Longrightarrow>
      case x of Inl e \<Rightarrow> True | Inr (rc, dth', m', w') \<Rightarrow> left_over dth m dth' m'"
    and b: "(if 0 < sz
      then Option.bind (cmdstream_pass T api dth m sz cur w)
            (\<lambda>r. case r of Inl e \<Rightarrow> Some (Inl e)
                 | Inr (next, dth, m, w) \<Rightarrow>
                     (case next of None \<Rightarrow> Some (Inr (- 4, dth, m, w))
                      | Some (sz, cur) \<Rightarrow> loop T api dth m sz cur w))
      else Some (Inr (0, dth, m, w))) = Some x"
  show "case x of Inl e \<Rightarrow> True | Inr (rc, dth', m', w') \<Rightarrow> left_over dth m dth' m'"
  proof (cases "sz > 0")
    case False
    then show ?thesis using b by (auto simp: left_over_def)
  next
    case True
    with b obtain r where r: "cmdstream_pass T api dth m sz cur w = Some r" by (auto split: bind_splits)
    show ?thesis
    proof (cases r)
      case (Inl e)
      then show ?thesis using b True r by auto
    next
      case (Inr v)
      obtain nx dth1 m1 w1 where v: "v = (nx, dth1, m1, w1)" by (cases v)
      note p = cmdstream_pass_leaves [OF r [unfolded Inr v]]
      show ?thesis
      proof (cases nx)
        case None
        then show ?thesis using b True r Inr v p by (auto simp: left_over_def)
      next
        case (Some y)
        obtain sz1 cur1 where y: "y = (sz1, cur1)" by (cases y)
        have "loop T api dth1 m1 sz1 cur1 w1 = Some x" using b True r Inr v Some y by simp
        from ih [OF this] p show ?thesis by (auto simp: left_over_def split: sum.splits)
      qed
    qed
  qed
qed

lemma dterm_cmdstream_leaves:
  assumes "dterm_cmdstream T api dth (Some m) w = Some (Inr (rc, dth', m', w'))" and "NUL \<in> set m"
  shows "\<exists>m1. m' = Some m1 \<and> left_over dth m dth' m1 \<and> NUL \<in> set m1"
proof -
  from assms(1) obtain n sz m0 m1 where
    "sub_str_sanitize n m 0 = Inr m0" and m: "m' = Some m1"
    and l: "cmdstream_loop T api dth m0 sz 0 w = Some (Inr (rc, dth', m1, w'))"
    by (auto simp: dterm_cmdstream_def obind_Inr Let_def)
  then have "NUL \<in> set m0" using sanitize_nul assms(2) by blast
  with cmdstream_loop_leaves [OF l] m show ?thesis by (auto simp: left_over_def)
qed

section \<open>Client options\<close>

definition std_options :: "main_env \<Rightarrow> arg_result \<Rightarrow> cliopt_t" where
  "std_options P a = (p_cliopts P)\<lparr>verbose_on := verbose_count a \<noteq> 0, debug_on := debug_count a \<noteq> 0,
     format := FORMAT_JsonHex, mempool_size := OTTERCAT_PARAM_MMAP_PAGESIZE, timeout_ms := 500, tries := 1\<rparr>"

lemma main_options_std:
  "timeout_count a = 0 \<Longrightarrow> retries_count a = 0 \<Longrightarrow> main_options P a = Inr (Some (std_options P a))"
  by (simp add: main_options_def cli_configure_def cliopt_defs cliopt_init_def std_options_def)

lemma std_options_ok [simp]: "opts_ok (std_options P a)" "timeout_ms (std_options P a) = 500"
  "tries (std_options P a) = 1"
  by (simp_all add: opts_ok_def std_options_def)

text \<open>The options \<open>--timeout\<close> and \<open>--retries\<close> have no effect: a parser that fills in only the
  entries it is given leaves their counts at 0 (they are not in the table handed to it), and then
  every command line runs with a time-out of 500 ms and one try.\<close>

theorem main_options_fixed:
  assumes "timeout_count (p_args P (formal_args argv)) = 0"
    and "retries_count (p_args P (formal_args argv)) = 0"
  shows "\<exists>c. main_options P (p_args P (formal_args argv)) = Inr (Some c)
    \<and> timeout_ms c = 500 \<and> tries c = 1"
  using main_options_std [OF assms, of P] by simp

section \<open>The program from its arguments\<close>

text \<open>The arguments are accepted, and the parser has filled in only the entries of its table.\<close>

definition started :: "main_env \<Rightarrow> byte list list \<Rightarrow> bool" where
  "started P argv \<longleftrightarrow>
     (let a = p_args P (formal_args argv) in
      \<not> nullcheck a \<and> help_count a = 0 \<and> version_count a = 0 \<and> nerrors a = 0
      \<and> timeout_count a = 0 \<and> retries_count a = 0 \<and> p_malloc_ok P)"

definition opens :: "main_env \<Rightarrow> byte list list \<Rightarrow> bool" where
  "opens P argv \<longleftrightarrow> p_talloc_ok P \<and> p_cancel_rc P = 0
     \<and> (\<exists>sp live. sp_open (p_open P) False (Some (socket_filename (p_args P (formal_args argv)))) 0 {}
           = Inr (0, Some sp, live))"

definition main_opts :: "main_env \<Rightarrow> byte list list \<Rightarrow> cliopt_t" where
  "main_opts P argv = std_options P (p_args P (formal_args argv))"

lemma main_started:
  assumes "started P argv" and "inline_command P argv = Inr inline" and "inline \<noteq> Some None"
  shows "main P api argv w =
    obind (Some (case inline of None \<Rightarrow> stdin_command P | Some m \<Rightarrow> Inr m)) (\<lambda>cmdstr.
      if cmdstr = None then Some (Inr (0, {}, w))
      else ottercat_main P api (Some (main_opts P argv))
             (Some (socket_filename (p_args P (formal_args argv)))) cmdstr w)"
proof -
  let ?a = "p_args P (formal_args argv)"
  have a: "\<not> nullcheck ?a" "help_count ?a = 0" "version_count ?a = 0" "nerrors ?a = 0"
    "timeout_count ?a = 0" "retries_count ?a = 0" "p_malloc_ok P"
    using assms(1) by (simp_all add: started_def Let_def)
  have o: "main_options P ?a = Inr (Some (main_opts P argv))"
    unfolding main_opts_def by (rule main_options_std [OF a(5,6)])
  show ?thesis unfolding main_def Let_def
    by (simp only: assms(2,3) a(1-4,7) o obind_simps if_False if_True less_nat_zero_code not_False_eq_True not_True_eq_False)
qed

subsection \<open>A concrete program run\<close>

definition demo_arg_result :: arg_result where
  "demo_arg_result = \<lparr>nullcheck = False, nerrors = 0, help_count = 0, version_count = 0,
     verbose_count = 0, debug_count = 0, timeout_count = 0, timeout_ival = 0, retries_count = 0,
     retries_ival = 0, socket_filename = ''/tmp/otter'', help_text = [], errors_text = []\<rparr>"

definition demo_main :: "(nat \<Rightarrow> byte list option) \<Rightarrow> byte list \<Rightarrow> main_env" where
  "demo_main mal cs = \<lparr>p_term = demo_term ticking, p_open = open_env_demo 3,
     p_linebuf = replicate 1024 NUL, p_talloc_ok = True, p_cancel_rc = 0, p_unlock_ok = True, p_malloc = mal,
     p_malloc_ok = True, p_input = bytes_in cs, p_args = (\<lambda>_. demo_arg_result),
     p_cliopts = demo_opts 5, p_dth = demo_dth, p_version = []\<rparr>"

lemma demo_main_sel [simp]:
  "p_term (demo_main mal cs) = demo_term ticking" "p_open (demo_main mal cs) = open_env_demo 3"
  "p_malloc (demo_main mal cs) = mal" "p_input (demo_main mal cs) = bytes_in cs"
  "p_args (demo_main mal cs) argv = demo_arg_result" "p_linebuf (demo_main mal cs) = replicate 1024 NUL"
  "p_cancel_rc (demo_main mal cs) = 0" "p_talloc_ok (demo_main mal cs)" "p_unlock_ok (demo_main mal cs)"
  by (simp_all add: demo_main_def)

lemma demo_main_ok: "started (demo_main mal cs) argv" "opens (demo_main mal cs) argv"
  by (simp_all add: started_def opens_def demo_main_def demo_arg_result_def sp_open_def open_env_demo_def Let_def)

lemma clock_ok_opts [simp]:
  "clock_ok (E\<lparr>opts := x\<rparr>) K c k = clock_ok E K c k"
  by (simp add: clock_ok_def elapsed_ok_def)

lemma demo_main_safe:
  assumes "opts_ok c" and "call_budget c < 2 ^ 30" and "mild_table tbl"
  shows "safe_env ((t_env (p_term (demo_main mal cs)))\<lparr>opts := Some c\<rparr>) (jv_cjson tbl) c"
proof -
  have "clock_ok ticking 1 c k" for k
    by (rule steady_clock_ok) (use assms(2) in \<open>simp_all add: ticking_def\<close>)
  with ticking_safe [OF assms(3)] assms(1) show ?thesis by (auto simp: safe_env_def)
qed

lemma demo_world_cells: "rdr_cells demo_world = Map.empty"
  by (simp add: sp_demo_defs)

lemma plain_empty_table [simp]: "plain (jv_cjson []) s"
  by (simp add: plain_def list_all_iff)

lemma dterm_init_ok:
  "dterm_init True (Some d) i ou True SP_ITEM {} =
     Inr (0, Some (d\<lparr>pctx := True, tctx := False, use_socket := True, devmgr := SP_ITEM,
       fd := (fd d)\<lparr>fd_in := i, fd_out := ou\<rparr>\<rparr>), {Ctx_p})"
  by (simp add: dterm_init_def Let_def)

lemma heads_ok_env [simp]: "heads_ok (T\<lparr>t_env := E\<rparr>) s = heads_ok T s" "head_ok (T\<lparr>t_env := E\<rparr>) l = head_ok T l"
proof -
  have "head_ok (T\<lparr>t_env := E\<rparr>) = head_ok T" by (simp add: head_ok_def [abs_def] ctype_ok_def [abs_def])
  then show "heads_ok (T\<lparr>t_env := E\<rparr>) s = heads_ok T s" "head_ok (T\<lparr>t_env := E\<rparr>) l = head_ok T l"
    by (simp_all add: heads_ok_def)
qed

definition main_dth :: "main_env \<Rightarrow> dterm_handle_t" where
  "main_dth P = (p_dth P)\<lparr>pctx := True, tctx := False, use_socket := True, devmgr := SP_ITEM,
     fd := (fd (p_dth P))\<lparr>fd_in := 0, fd_out := 1\<rparr>\<rparr>"

definition main_term_env :: "main_env \<Rightarrow> cliopt_t \<Rightarrow> term_env" where
  "main_term_env P c = (p_term P)\<lparr>t_env := (t_env (p_term P))\<lparr>opts := Some c\<rparr>\<rparr>"

theorem main_options_fixed_witness:
  "\<exists>c. main_options (demo_main (\<lambda>_. None) []) (p_args (demo_main (\<lambda>_. None) []) (formal_args [''ottercat'', ''/s'']))
     = Inr (Some c) \<and> timeout_ms c = 500 \<and> tries c = 1"
  using main_options_fixed [of "demo_main (\<lambda>_. None) []" "[''ottercat'', ''/s'']"]
  by (simp add: demo_arg_result_def)

text \<open>C39: a command given after \<open>--\<close> is never run: the buffer is filled to its last byte with the
  arguments and a blank after each, the terminator is overwritten, and determining the length of
  the command reads past the end of the block, whatever the arguments are.\<close>

theorem main_inline_overread:
  assumes st: "started P argv" and op: "opens P argv" and ne: "inline_args argv \<noteq> []"
    and nul: "\<forall>a \<in> set argv. NUL \<notin> set a"
    and mem: "p_malloc P (cmdstr_size argv) = Some m" "length m = cmdstr_size argv"
  shows "main P api argv w = Some (Inl Out_of_bounds)"
proof -
  let ?s = "concat (map (\<lambda>a. a @ '' '') (inline_args argv))"
  have "NUL \<notin> set ?s" using nul by (auto simp: inline_args_def dest!: in_set_dropD)
  then have n: "cstrlen ?s = Inl Out_of_bounds" by (rule cstrlen_none)
  from op obtain sp live where o: "p_talloc_ok P"
    "sp_open (p_open P) False (Some (socket_filename (p_args P (formal_args argv)))) 0 {}
      = Inr (0, Some sp, live)" by (auto simp: opens_def)
  show ?thesis
    unfolding main_started [OF st inline_command_eq [OF ne mem], simplified]
    using o n by (simp add: ottercat_main_def dterm_init_ok dterm_cmdstream_def Let_def)
qed

theorem main_inline_overread_witness:
  "main (demo_main (\<lambda>n. Some (replicate n NUL)) []) (jv_cjson []) [''ottercat'', ''/tmp/otter'', ''--'', ''ls'', ''-l'']
     demo_world = Some (Inl Out_of_bounds)"
proof -
  let ?v = "[''ottercat'', ''/tmp/otter'', ''--'', ''ls'', ''-l'']"
  have "inline_args ?v \<noteq> []" by (simp add: inline_args_def formal_args_def)
  from main_inline_overread [OF demo_main_ok this, of "\<lambda>n. Some (replicate n NUL)" "[]"
      "replicate (cmdstr_size ?v) NUL"] show ?thesis by simp
qed

section \<open>The exit code\<close>

text \<open>The exit code does not tell whether the commands succeeded: a run that ends returns -2
  if the socket could not be opened or the handle not be set up, and 0 in every other case, so
  also after a command that failed; and it leaves none of the resources of the socket behind when
  the thread can be cancelled.\<close>

theorem ottercat_main_exit:
  assumes "ottercat_main P api opt socket cmdstr w = Some (Inr (rc, live, w'))"
    and "p_cancel_rc P = 0"
  shows "rc = (if p_talloc_ok P \<and> (\<exists>sp l. sp_open (p_open P) False socket 0 {} = Inr (0, sp, l)) then 0 else -2)
    \<and> live = {}"
proof -
  obtain orc sp l where o: "sp_open (p_open P) False socket 0 {} = Inr (orc, sp, l)"
    and l: "l = (if orc \<noteq> 0 then {} else if 0 \<le> socket_fd (p_open P) then UNIV else UNIV - {R_fd})"
    using sp_open_live [of "p_open P" False socket 0] by blast
  have c: "sp_close 0 u SP_ITEM l = (if u then Inr (0, {}) else Inl Foreign_unlock)" if "orc = 0" for u
    using that l by (cases "0 \<le> socket_fd (p_open P)") (auto simp: all_resources sp_close_def release_def foreign_unlock_def)
  show ?thesis
  proof (cases "orc = 0")
    case False
    then show ?thesis using assms o l by (simp add: ottercat_main_def main_term_def)
  next
    case True
    then show ?thesis using assms o c
      by (cases "p_talloc_ok P"; cases "p_unlock_ok P")
         (auto simp: ottercat_main_def main_term_def dterm_init_ok dterm_init_def talloc_free_def
           obind_Inr Let_def)
  qed
qed

section \<open>The program from standard input\<close>

lemma sp_open_item:
  assumes "sp_open e hn path flags live = Inr (0, Some sp, live')" and "length lb = 1024"
  shows "wf_item (sp_thread_init lb sp)" "readers (sp_thread_init lb sp) = 0"
    "waiting_readers (sp_thread_init lb sp) = 0"
  using assms
  by (auto simp: sp_open_def sp_open_ERR_def Let_def sp_thread_init_def sp_calloc_def wf_item_def
      SP_MAX_READERS_def SP_MAX_SUBSCRIBERS_def split: if_splits option.splits)

lemma cstring_total: "NUL \<in> set m \<Longrightarrow> \<exists>s. cstring m = Inr s"
proof -
  assume "NUL \<in> set m"
  then obtain s r where "m = s @ NUL # r" "NUL \<notin> set s" by (meson split_list_first)
  then show ?thesis using cstring_append by blast
qed

lemma report_cmdrc_total: "NUL \<in> set m \<Longrightarrow> \<exists>w'. report_cmdrc (Some c) cmdrc m w = Inr w'"
  using cstring_total [of m]
  by (auto simp: report_cmdrc_def VERBOSE_PRINTF_def ERR_PRINTF_def cliopt_isverbose_def)

lemma ottercat_main_runs:
  assumes op: "opens P argv" "p_unlock_ok P" and lb: "length (p_linebuf P) = 1024" and buf: "length (t_buf (p_term P)) = 1024"
    and E: "safe_env ((t_env (p_term P))\<lparr>opts := Some c\<rparr>) api c"
    and s: "NUL \<notin> set s" "length s < 2 ^ 31" "plain api s" "heads_ok (p_term P) s" and w: "rdr_cells w = Map.empty"
  shows "\<exists>w'. ottercat_main P api (Some c) (Some (socket_filename (p_args P (formal_args argv))))
    (Some (s @ NUL # r)) w = Some (Inr (0, {}, w'))"
proof -
  let ?T = "(p_term P)\<lparr>t_env := (t_env (p_term P))\<lparr>opts := Some c\<rparr>\<rparr>"
  from op(1) obtain sp live where o: "p_talloc_ok P" "p_cancel_rc P = 0"
    "sp_open (p_open P) False (Some (socket_filename (p_args P (formal_args argv)))) 0 {}
      = Inr (0, Some sp, live)" by (auto simp: opens_def)
  let ?w = "w\<lparr>item := sp_thread_init (p_linebuf P) sp\<rparr>"
  have "idle_world ?w"
    using sp_open_item [OF o(3) lb] w by (simp add: idle_world_def wf_idle_def wf_world_def)
  moreover have "safe_env (t_env ?T) api c" "length (t_buf ?T) = 1024" "heads_ok ?T s"
    using E buf s(4) by simp_all
  ultimately obtain rc w1 where "result_of (dterm_cmdstream ?T api (main_dth P) (Some (s @ NUL # r)) ?w)
      = Some (Inr (rc, w1))" using dterm_cmdstream_ends [OF _ _ s(1-3)] by blast
  then obtain d m where d: "dterm_cmdstream ?T api (main_dth P) (Some (s @ NUL # r)) ?w
      = Some (Inr (rc, d, m, w1))" by (auto simp: result_of_def obind_Inr)
  from dterm_cmdstream_leaves [OF d] obtain m1 where m: "m = Some m1" "NUL \<in> set m1"
    and lo: "left_over (main_dth P) (s @ NUL # r) d m1" by auto
  have "pctx d" "\<not> tctx d" using lo by (simp_all add: left_over_def main_dth_def)
  then have de: "dterm_deinit d {Ctx_p} = Inr {}" by (simp add: dterm_deinit_def talloc_free_def)
  from report_cmdrc_total [OF m(2)] obtain w2 where "report_cmdrc (Some c) rc m1 w1 = Inr w2" by blast
  moreover have "live = (if 0 \<le> socket_fd (p_open P) then UNIV else UNIV - {R_fd})"
    using o(3) sp_open_live [of "p_open P" False "Some (socket_filename (p_args P (formal_args argv)))" 0]
    by auto
  then have "sp_close 0 True SP_ITEM live = Inr (0, {})"
    by (cases "0 \<le> socket_fd (p_open P)") (auto simp: all_resources sp_close_def release_def foreign_unlock_def)
  ultimately show ?thesis using o op(2) d m(1) de
    by (simp add: ottercat_main_def main_term_def dterm_init_ok main_dth_def [symmetric] Let_def)
qed

lemma inline_command_none: "inline_args argv = [] \<Longrightarrow> inline_command P argv = Inr None"
  by (simp add: inline_command_def cmdstr_size_def)

lemma stdin_command_eq:
  assumes "p_input P = bytes_in cs" and "first_line 1024 cs \<noteq> []"
    and "p_malloc P 1024 = Some m" and "length m = 1024"
  shows "stdin_command P = Inr (Some (first_line 1024 cs @ drop (length (first_line 1024 cs)) m))"
proof -
  have "sub_readline (p_input P) m 1024 = Inr (int (length (first_line 1024 cs)),
      length (first_line 1024 cs), first_line 1024 cs @ drop (length (first_line 1024 cs)) m)"
    unfolding assms(1) by (rule sub_readline_eq) (simp add: assms(4))
  then show ?thesis using assms(2,3) by (simp add: stdin_command_def)
qed

lemma takeWhile_zeros:
  "takeWhile (\<lambda>c. c \<noteq> NUL) (l @ replicate n NUL) = takeWhile (\<lambda>c. c \<noteq> NUL) l"
proof (induction l)
  case Nil
  then show ?case by (cases n) auto
qed auto



text \<open>The buffer for standard input is not terminated: when neither the line nor the block
  that \<open>malloc\<close> returned holds a NUL, determining the length of the command reads past the end
  of the block.\<close>

theorem main_stdin_unterminated:
  assumes st: "started P argv" and op: "opens P argv" and no: "inline_args argv = []"
    and inp: "p_input P = bytes_in cs" "first_line 1024 cs \<noteq> []" "NUL \<notin> set (first_line 1024 cs)"
    and mem: "p_malloc P 1024 = Some m" "length m = 1024" "NUL \<notin> set m"
  shows "main P api argv w = Some (Inl Out_of_bounds)"
proof -
  let ?b = "first_line 1024 cs @ drop (length (first_line 1024 cs)) m"
  have "NUL \<notin> set ?b" using inp(3) mem(3) by (auto dest: in_set_dropD)
  then have n: "cstrlen ?b = Inl Out_of_bounds" by (rule cstrlen_none)
  from op obtain sp live where o: "p_talloc_ok P"
    "sp_open (p_open P) False (Some (socket_filename (p_args P (formal_args argv)))) 0 {}
      = Inr (0, Some sp, live)" by (auto simp: opens_def)
  show ?thesis
    unfolding main_started [OF st inline_command_none [OF no], simplified]
      stdin_command_eq [OF inp(1,2) mem(1,2)]
    using o n by (simp add: ottercat_main_def dterm_init_ok dterm_cmdstream_def Let_def)
qed

theorem main_stdin_unterminated_witness:
  "main (demo_main (\<lambda>n. Some (replicate n (CHR ''x''))) (''ls'' @ [LF])) (jv_cjson []) [''ottercat'', ''/tmp/otter'']
     demo_world = Some (Inl Out_of_bounds)"
proof -
  have "inline_args [''ottercat'', ''/tmp/otter''] = []" by (simp add: inline_args_def formal_args_def)
  moreover have "first_line 1024 (''ls'' @ [LF]) = ''ls'' @ [LF]" by (simp add: eval_nat_numeral)
  ultimately show ?thesis
    using main_stdin_unterminated [OF demo_main_ok, of "[''ottercat'', ''/tmp/otter'']" "\<lambda>n. Some (replicate n (CHR ''x''))"
        "''ls'' @ [LF]" "''ls'' @ [LF]" "replicate 1024 (CHR ''x'')" "jv_cjson []" demo_world]
    by simp
qed

theorem ottercat_main_exit_witness:
  "\<exists>w'. ottercat_main (demo_main (\<lambda>_. None) []) (jv_cjson []) (Some (demo_opts 1)) (Some ''/tmp/otter'')
     (Some (''ls'' @ [NUL])) demo_world = Some (Inr (0, {}, w')) \<and> p_talloc_ok (demo_main (\<lambda>_. None) [])"
proof -
  let ?P = "demo_main (\<lambda>_. None) []"
  have c: "opts_ok (demo_opts 1)" "call_budget (demo_opts 1) < 2 ^ 30" by (simp_all add: opts_ok_def call_budget_def)
  have b: "length (p_linebuf ?P) = 1024" "length (t_buf (p_term ?P)) = 1024"
    "NUL \<notin> set ''ls''" "length ''ls'' < 2 ^ 31" by simp_all
  have h: "heads_ok (p_term ?P) ''ls''" by (rule ascii_heads) simp_all
  from ottercat_main_runs [OF demo_main_ok(2) _ b(1,2) demo_main_safe [OF c(1,2) demo_mild(2)] b(3,4) plain_empty_table
      h demo_world_cells, of "[]" "[]"]
  obtain w' where r: "ottercat_main ?P (jv_cjson []) (Some (demo_opts 1)) (Some ''/tmp/otter'')
     (Some (''ls'' @ [NUL])) demo_world = Some (Inr (0, {}, w'))"
    by (auto simp: demo_arg_result_def)
  have "p_cancel_rc ?P = 0" by simp
  from ottercat_main_exit [OF r this] r show ?thesis by (auto split: if_splits)
qed

section \<open>Every way out of the program\<close>

text \<open>The program goes on with a command; the arguments are refused; the socket and the handle are set up.\<close>

definition goes_on :: "main_env \<Rightarrow> byte list list \<Rightarrow> bool" where
  "goes_on P argv \<longleftrightarrow>
     (let a = p_args P (formal_args argv) in
      inline_command P argv \<noteq> Inr (Some None) \<and> \<not> nullcheck a \<and> help_count a = 0 \<and> version_count a = 0
      \<and> nerrors a = 0 \<and> p_malloc_ok P \<and> (inline_command P argv = Inr None \<longrightarrow> stdin_command P \<noteq> Inr None))"

definition refused :: "main_env \<Rightarrow> byte list list \<Rightarrow> bool" where
  "refused P argv \<longleftrightarrow>
     (let a = p_args P (formal_args argv) in
      inline_command P argv \<noteq> Inr (Some None)
      \<and> (nullcheck a \<or> help_count a = 0 \<and> version_count a = 0 \<and> 0 < nerrors a))"

definition set_up :: "main_env \<Rightarrow> byte list list \<Rightarrow> bool" where
  "set_up P argv \<longleftrightarrow> p_talloc_ok P
     \<and> (\<exists>sp l. sp_open (p_open P) False (Some (socket_filename (p_args P (formal_args argv)))) 0 {} = Inr (0, sp, l))"

lemma ottercat_main_silent:
  assumes "ottercat_main P api opt socket cmdstr w = Some (Inr (rc, live, w'))" and "rc = -2"
  shows "sock_out w' = sock_out w"
  using assms
  by (auto simp: ottercat_main_def main_term_def obind_Inr Let_def emit_err_def elim!: rbind_InrE split: if_splits)

lemma main_ends:
  assumes "main P api argv w = Some (Inr (rc, live, w'))"
  shows "if goes_on P argv
    then \<exists>opt cmdstr. ottercat_main P api opt (Some (socket_filename (p_args P (formal_args argv)))) cmdstr w
      = Some (Inr (rc, live, w'))
    else rc = (if refused P argv then 1 else 0) \<and> live = {} \<and> sock_out w' = sock_out w"
proof -
  obtain inl where i: "inline_command P argv = Inr inl" using assms by (auto simp: main_def obind_Inr)
  define a where "a = p_args P (formal_args argv)"
  show ?thesis
  proof (cases "inl = Some None \<or> nullcheck a \<or> 0 < help_count a \<or> 0 < version_count a \<or> 0 < nerrors a")
    case True
    with assms i show ?thesis
      by (auto simp: main_def obind_Inr Let_def goes_on_def refused_def emit_def emit_err_def a_def [symmetric]
          split: if_splits)
  next
    case False
    with assms i show ?thesis
      by (auto simp: main_def obind_Inr Let_def goes_on_def refused_def a_def [symmetric]
          split: if_splits option.splits)
  qed
qed

text \<open>C30: every way out of the program: for all arguments, a run that ends returns 1 when the argument
  table cannot be allocated or the arguments are refused (help and version take precedence), -2
  when there is a command but the socket or the handle cannot be set up, and 0 in every other case:
  after help and version, when memory or the command is missing, and after a stream of commands,
  failed or not. Nothing is sent unless the socket and the handle are set up, and no resource of the
  socket is left when the thread can be cancelled.\<close>

theorem main_exit_code:
  assumes run: "main P api argv w = Some (Inr (rc, live, w'))" and cancel: "p_cancel_rc P = 0"
  shows "rc = (if goes_on P argv then if set_up P argv then 0 else -2 else if refused P argv then 1 else 0)
    \<and> live = {} \<and> (goes_on P argv \<and> set_up P argv \<or> sock_out w' = sock_out w)"
proof (cases "goes_on P argv")
  case True
  with main_ends [OF run] obtain opt cmdstr where
    m: "ottercat_main P api opt (Some (socket_filename (p_args P (formal_args argv)))) cmdstr w
      = Some (Inr (rc, live, w'))" by auto
  from ottercat_main_exit [OF m cancel] have "rc = (if set_up P argv then 0 else -2)" "live = {}"
    by (simp_all add: set_up_def)
  with ottercat_main_silent [OF m] True show ?thesis by (cases "set_up P argv") auto
next
  case False
  with main_ends [OF run] show ?thesis by simp
qed

theorem main_exit_code_witness:
  "\<exists>w'. main ((demo_main (\<lambda>_. None) [])\<lparr>p_args := \<lambda>_. demo_arg_result\<lparr>nerrors := 1\<rparr>\<rparr>) (jv_cjson [])
      [''ottercat''] demo_world = Some (Inr (1, {}, w')) \<and> sock_out w' = []"
proof -
  let ?P = "(demo_main (\<lambda>_. None) [])\<lparr>p_args := \<lambda>_. demo_arg_result\<lparr>nerrors := 1\<rparr>\<rparr>"
  let ?argv = "[''ottercat'']"
  have i: "inline_command ?P ?argv = Inr None"
    by (simp add: inline_command_def cmdstr_size_def inline_args_def formal_args_def)
  have a: "p_args ?P (formal_args ?argv) = demo_arg_result\<lparr>nerrors := 1\<rparr>" by simp
  have g: "\<not> goes_on ?P ?argv" "refused ?P ?argv"
    using i unfolding goes_on_def refused_def a by (simp_all add: demo_arg_result_def)
  obtain rc live w' where run: "main ?P (jv_cjson []) ?argv demo_world = Some (Inr (rc, live, w'))"
    using i unfolding main_def a by (auto simp: demo_arg_result_def obind_def)
  from main_exit_code [OF run] g run show ?thesis by simp
qed

end
