(* ===== verification/Devmgr_Peer.thy ===== *)
theory Devmgr_Peer
  imports Devmgr_Exchange
begin

text \<open>
  Exchanges with any peer: whatever the I/O thread publishes before, during and after each read,
  the call is a run of the abstract protocol on the lines its reads returned, and these are, in
  order and each at most once, lines that were published during the exchange. The script of
  \<open>Devmgr_Exchange\<close> fixes what each round sees; here it is only shown to exist.
\<close>

section \<open>Rounds\<close>

text \<open>The readings of a call that begins with the \<open>k\<close>-th succeed.\<close>

definition clock_runs :: "env \<Rightarrow> nat \<Rightarrow> nat \<Rightarrow> bool" where
  "clock_runs E k hi \<longleftrightarrow> (\<forall>i. k \<le> i \<and> i < hi \<longrightarrow> os_clock E i \<noteq> None)"

lemma clock_runs_mono: "clock_runs E k hi \<Longrightarrow> k \<le> k' \<Longrightarrow> clock_runs E k' hi"
  by (simp add: clock_runs_def)

text \<open>What a round that hears \<open>line\<close> does in the phase \<open>p\<close>, when \<open>el\<close> milliseconds have passed since
  the start of the exchange.\<close>

definition round_result ::
    "env \<Rightarrow> 'j cjson \<Rightarrow> nat \<Rightarrow> bool \<Rightarrow> int \<Rightarrow> nat \<Rightarrow> nat \<Rightarrow> phase \<Rightarrow> byte list \<Rightarrow> byte list option \<Rightarrow> int
     \<Rightarrow> dm \<Rightarrow> world \<Rightarrow> dm_next \<times> dm \<times> world \<Rightarrow> bool" where
  "round_result E api lag verb t dstmax a p sent line el m w r \<longleftrightarrow>
     (let v = verdict_of api p line; (next, m', w') = r in
      next = next_of dstmax v (Some (dm_timeout m - el))
      \<and> 0 \<le> el \<and> (lag \<le> n_clock w \<longrightarrow> 1 \<le> el) \<and> list_all (mild api) (carry a w')
      \<and> dm_ok dstmax m' \<and> dm_dst m' = copied_to dstmax v (dm_dst m) \<and> live_reader a w'
      \<and> n_read w' = Suc (n_read w) \<and> n_clock w' \<le> Suc (n_clock w)
      \<and> (final v \<or> n_clock w' = Suc (n_clock w) \<and> dm_timeout m' = dm_timeout m - el)
      \<and> out w' = out w @ shown verb t line \<and> sock_out w' = sock_out w @ sent
      \<and> (case v of Stay p' \<Rightarrow> rep p' m' | _ \<Rightarrow> True)
      \<and> subseq (heard line @ carry a w') (carry a w @ ev_lines (os_event (os_sp E) (n_read w))))"

lemma devmgr_iter_any:
  assumes ex: "exchange_ok E api c src inbytes" and rep: "rep p m" and m: "dm_ok dstmax m"
    and w: "live_reader a w" "list_all (mild api) (carry a w)"
    and g: "0 \<le> dm_timeout m" "dm_timeout m < 2 ^ 31"
    and clk: "elapsed_ok E ref lag (n_clock w) hi" "clock_runs E (n_clock w) hi" "n_clock w < hi"
  shows "\<exists>line el r. devmgr_iter E api (Some a) t ref dstmax m w = Inr r
    \<and> round_result E api lag (verbose_on c) t dstmax a p [] line el m w r"
proof -
  have e: "cjson_ok api" "mild_env api (os_sp E)" "opts E = Some c" "env_ok (os_sp E)"
    using ex by (simp_all add: exchange_ok_def)
  have len: "length (dm_dout m) = 1024" using m by (simp add: dm_ok_def)
  from read_order [OF w(1) e(4) len, of "to_size t"] obtain rc dout w1 line
    where rd: "sp_read (os_sp E) (Some a) (Some (dm_dout m)) 1024 (to_size t) w = Inr (rc, Some dout, w1)"
      and line: "line_in line rc dout" "length dout = 1024" and w1: "live_reader a w1"
      "n_read w1 = Suc (n_read w)" "n_clock w1 = n_clock w" "out w1 = out w" "sock_out w1 = sock_out w"
      "subseq (heard line @ carry a w1) (carry a w @ ev_lines (os_event (os_sp E) (n_read w)))"
    by blast
  note ml = heard_mild [OF w1(6) w(2) e(2)]
  obtain now where now: "os_clock E (n_clock w) = Some now" using clk(2,3) by (auto simp: clock_runs_def)
  define el where "el = elapsed_ms (diff_timespec ref now)"
  note el = elapsed_okD [OF clk(1) order.refl clk(3) now, folded el_def]
  have "to_int (dm_timeout m - el) = dm_timeout m - el" by (rule budget_shrinks [OF g el(1,2)])
  then have b: "budget_left E ref m w1 = Some (dm_timeout m - el)"
    using now w1(3) by (simp add: budget_left_def el_def)
  from devmgr_iter_eq [where ref = ref, OF e(1) ml(1) rep m e(3) rd line, unfolded b] obtain m' where
    "devmgr_iter E api (Some a) t ref dstmax m w = Inr (next_of dstmax (verdict_of api p line)
       (Some (dm_timeout m - el)), m', after_round (verbose_on c) t (verdict_of api p line) line w1)"
    and "dm_ok dstmax m'" "dm_dst m' = copied_to dstmax (verdict_of api p line) (dm_dst m)"
    and "final (verdict_of api p line) \<or> dm_timeout m' = dm_timeout m - el"
    and "case verdict_of api p line of Stay p' \<Rightarrow> rep p' m' | _ \<Rightarrow> True" by auto
  moreover have "n_clock (after_round (verbose_on c) t v line w1) =
      (if final v then n_clock w else Suc (n_clock w))" for v using w1(3) by simp
  ultimately show ?thesis using w1 el(1,3) ml(2) by (auto simp: round_result_def Let_def)
qed

lemma devmgr_round_any:
  assumes ex: "exchange_ok E api c src inbytes" and ph: "round_phase send p m" and m: "dm_ok dstmax m"
    and w: "live_reader a w" "list_all (mild api) (carry a w)"
    and g: "0 \<le> dm_timeout m" "dm_timeout m < 2 ^ 31"
    and clk: "elapsed_ok E ref lag (n_clock w) hi" "clock_runs E (n_clock w) hi" "n_clock w < hi"
  shows "\<exists>line el r. devmgr_round E api SP_ITEM (Some a) t ref src inbytes dstmax send m w = Inr r
    \<and> round_result E api lag (verbose_on c) t dstmax a p (if send then command_line src inbytes else []) line el m w r"
proof (cases send)
  case False
  with ph have "rep p m" by (simp add: round_phase_def)
  from devmgr_iter_any [OF ex this m w g clk, of t] False show ?thesis by (simp add: devmgr_round_def)
next
  case True
  let ?m = "m\<lparr>dm_state := 0, dm_sid := -1\<rparr>"
  have wr: "writes_all (os_sp E)" "os_user (os_sp E) (n_read w)" "wf_idle w" "command_ok src inbytes"
    using ex w by (simp_all add: exchange_ok_def live_reader_def)
  from devmgr_send_output [OF wr, of m] obtain k where
    s: "devmgr_send E SP_ITEM src inbytes m w = Inr (Again, ?m, with_output (command_line src inbytes) k w)"
    by blast
  let ?w = "with_output (command_line src inbytes) k w"
  have w1: "live_reader a ?w" "n_clock ?w = n_clock w" "n_read ?w = n_read w" "carry a ?w = carry a w"
    "out ?w = out w" "sock_out ?w = sock_out w @ command_line src inbytes"
    using w(1) carry_cong [of ?w w a]
    by (simp_all add: with_output_def live_reader_def wf_idle_def wf_world_def)
  have m1: "rep p ?m" "dm_ok dstmax ?m" "0 \<le> dm_timeout ?m" "dm_timeout ?m < 2 ^ 31"
    using True ph m g by (auto simp: round_phase_def dm_ok_def)
  have "list_all (mild api) (carry a ?w)" using w(2) w1(4) by simp
  from devmgr_iter_any [OF ex m1(1,2) w1(1) this m1(3,4), unfolded w1(2), OF clk, of t] obtain line el r where
    "devmgr_iter E api (Some a) t ref dstmax ?m ?w = Inr r"
    "round_result E api lag (verbose_on c) t dstmax a p [] line el ?m ?w r" by blast
  moreover from this(2) have
    "round_result E api lag (verbose_on c) t dstmax a p (command_line src inbytes) line el m w r"
    by (cases r) (simp add: round_result_def w1 Let_def)
  ultimately show ?thesis using True s by (auto simp: devmgr_round_def)
qed

section \<open>Exchanges\<close>

text \<open>The lines the rounds heard, and those published between two reads.\<close>

definition lines_heard :: "(byte list option \<times> int) list \<Rightarrow> byte list list" where
  "lines_heard ins = concat (map (\<lambda>x. heard (fst x)) ins)"

definition published :: "env \<Rightarrow> nat \<Rightarrow> nat \<Rightarrow> byte list list" where
  "published E i n = concat (map (\<lambda>j. ev_lines (os_event (os_sp E) j)) [i ..< i + n])"

lemma published_Suc: "published E i (Suc n) = ev_lines (os_event (os_sp E) i) @ published E (Suc i) n"
  by (simp add: published_def upt_conv_Cons del: upt_Suc)

lemma subseq_step: "subseq (h @ c') (c @ e) \<Longrightarrow> subseq (hs @ c'') (c' @ p) \<Longrightarrow> subseq ((h @ hs) @ c'') (c @ e @ p)"
proof -
  assume a: "subseq (h @ c') (c @ e)" "subseq (hs @ c'') (c' @ p)"
  from a(2) have "subseq (h @ hs @ c'') (h @ c' @ p)" by (subst subseq_append')
  moreover from a(1) have "subseq ((h @ c') @ p) ((c @ e) @ p)" by (subst subseq_append)
  ultimately show ?thesis by (metis append.assoc subseq_order.trans)
qed

definition some_run ::
    "env \<Rightarrow> 'j cjson \<Rightarrow> nat \<Rightarrow> bool \<Rightarrow> int \<Rightarrow> nat \<Rightarrow> nat \<Rightarrow> byte list \<Rightarrow> bool \<Rightarrow> phase \<Rightarrow> dm \<Rightarrow> world
     \<Rightarrow> int \<times> dm \<times> world \<Rightarrow> bool" where
  "some_run E api lag verb t dstmax a cmdl send p m w r \<longleftrightarrow>
     (let (rc, m', w') = r in \<exists>ins k v.
        dm_run api dstmax p (dm_timeout m) ins = Some (rc, k, v, length ins)
      \<and> loop_result dstmax verb t cmdl ins a (k + (if send then 1 else 0)) v (length ins) m w m' w'
      \<and> n_read w' = n_read w + length ins
      \<and> n_clock w' \<le> n_clock w + length ins \<and> length ins \<le> Suc (rank lag m w)
      \<and> subseq (lines_heard ins @ carry a w') (carry a w @ published E (n_read w) (length ins)))"

lemma some_run_step:
  assumes pos: "0 < dm_timeout m1" and r: "round_result E api lag verb t dstmax a p (if send then cmdl else []) line el m w (nx, m1, w1)"
    and nx: "nx = (if again then Resend else Again)"
    and q: "q = (if again then Wait_ack else case verdict_of api p line of Stay q \<Rightarrow> q | _ \<Rightarrow> p)"
    and run: "some_run E api lag verb t dstmax a cmdl again q m1 w1 x"
  shows "some_run E api lag verb t dstmax a cmdl send p m w x"
proof -
  obtain rc m' w' where x: "x = (rc, m', w')" by (cases x)
  let ?v = "verdict_of api p line" and ?g = "dm_timeout m - el"
  from r have n: "next_of dstmax ?v (Some ?g) = nx" and m1: "dm_dst m1 = copied_to dstmax ?v (dm_dst m)"
    and w1: "n_read w1 = Suc (n_read w)" "out w1 = out w @ shown verb t line"
      "sock_out w1 = sock_out w @ (if send then cmdl else [])"
      "subseq (heard line @ carry a w1) (carry a w @ ev_lines (os_event (os_sp E) (n_read w)))"
    and g: "final ?v \<or> n_clock w1 = Suc (n_clock w) \<and> dm_timeout m1 = ?g" "0 \<le> el" "lag \<le> n_clock w \<longrightarrow> 1 \<le> el"
    by (auto simp: round_result_def Let_def)
  have nf: "\<not> final ?v" using n nx next_of_final [of dstmax ?v "Some ?g"] by (auto split: if_splits)
  with g pos have ck: "n_clock w1 = Suc (n_clock w)" and lt: "rank lag m1 w1 < rank lag m w"
    using rank_less [of w1 w m1 m el lag] by auto
  from run x obtain ins k v where i: "dm_run api dstmax q (dm_timeout m1) ins = Some (rc, k, v, length ins)"
    and l: "loop_result dstmax verb t cmdl ins a (k + (if again then 1 else 0)) v (length ins) m1 w1 m' w'"
    and o: "subseq (lines_heard ins @ carry a w') (carry a w1 @ published E (n_read w1) (length ins))"
    and rd: "n_read w' = n_read w1 + length ins" "n_clock w' \<le> n_clock w1 + length ins"
      "length ins \<le> Suc (rank lag m1 w1)" by (auto simp: some_run_def)
  let ?ins = "(line, el) # ins" and ?k = "k + (if again then 1 else 0)"
  have "dm_run api dstmax p (dm_timeout m) ?ins = Some (rc, ?k, v, length ?ins)"
    using n nx q i g nf by (simp add: Let_def split: if_splits)
  moreover have "loop_result dstmax verb t cmdl ?ins a (?k + (if send then 1 else 0)) v (length ?ins) m w m' w'"
    using l w1(2,3) m1 copied_to_nonfinal [OF nf] by (simp add: loop_result_def)
  moreover have "n_read w' = n_read w + length ?ins" using rd w1(1) by simp
  moreover have "n_clock w' \<le> n_clock w + length ?ins" using rd(2) ck by simp
  moreover have "length ?ins \<le> Suc (rank lag m w)" using rd(3) lt by simp
  moreover have "subseq (lines_heard ?ins @ carry a w') (carry a w @ published E (n_read w) (length ?ins))"
    using subseq_step [OF w1(4) o [unfolded w1(1)]] by (simp add: lines_heard_def published_Suc)
  ultimately show ?thesis unfolding some_run_def x Let_def prod.case by blast
qed

lemma devmgr_loop_any:
  assumes ex: "exchange_ok E api c src inbytes"
  shows "round_phase send p m \<Longrightarrow> dm_ok dstmax m \<Longrightarrow> live_reader a w \<Longrightarrow> list_all (mild api) (carry a w) \<Longrightarrow>
      0 \<le> dm_timeout m \<Longrightarrow> dm_timeout m < 2 ^ 31 \<Longrightarrow>
      elapsed_ok E ref lag (n_clock w) hi \<Longrightarrow> clock_runs E (n_clock w) hi \<Longrightarrow> n_clock w + rank lag m w < hi \<Longrightarrow>
    \<exists>x. devmgr_loop E api SP_ITEM (Some a) t ref src inbytes dstmax send m w = Some (Inr x)
      \<and> some_run E api lag (verbose_on c) t dstmax a (command_line src inbytes) send p m w x"
proof (induction "rank lag m w" arbitrary: send p m w rule: less_induct)
  case less
  let ?cl = "command_line src inbytes"
  have hi: "n_clock w < hi" using less.prems(9) by simp
  from devmgr_round_any [OF ex less.prems(1-8) hi, of t] obtain line el nx m1 w1 where
    r: "devmgr_round E api SP_ITEM (Some a) t ref src inbytes dstmax send m w = Inr (nx, m1, w1)"
    and rr: "round_result E api lag (verbose_on c) t dstmax a p (if send then ?cl else []) line el m w (nx, m1, w1)"
    by (metis prod_cases3)
  let ?v = "verdict_of api p line" and ?g = "dm_timeout m - el"
  from rr have n: "next_of dstmax ?v (Some ?g) = nx" and el: "0 \<le> el" "lag \<le> n_clock w \<Longrightarrow> 1 \<le> el"
    and m1: "dm_ok dstmax m1" "dm_dst m1 = copied_to dstmax ?v (dm_dst m)"
    and w1: "live_reader a w1" "list_all (mild api) (carry a w1)" "n_clock w1 \<le> Suc (n_clock w)"
      "n_read w1 = Suc (n_read w)"
      "out w1 = out w @ shown (verbose_on c) t line" "sock_out w1 = sock_out w @ (if send then ?cl else [])"
      "subseq (heard line @ carry a w1) (carry a w @ ev_lines (os_event (os_sp E) (n_read w)))"
    and g: "final ?v \<or> n_clock w1 = Suc (n_clock w) \<and> dm_timeout m1 = ?g"
    and st: "case ?v of Stay p' \<Rightarrow> rep p' m1 | _ \<Rightarrow> True"
    by (auto simp: round_result_def Let_def)
  note unf = devmgr_loop_round [of _ _ _ _ _ _ _ _ _ send m w]
  have go: ?case if nx: "nx = (if again then Resend else Again)"
    and q: "q = (if again then Wait_ack else case ?v of Stay q \<Rightarrow> q | _ \<Rightarrow> p)" for again q
  proof -
    have nf: "\<not> final ?v" and pos: "0 < ?g" and ph: "round_phase again q m1"
      using n nx q st next_of_final [of dstmax ?v "Some ?g"]
      by (auto simp: next_of_Again next_of_Resend round_phase_def split: if_splits)
    then have b: "dm_timeout m1 = ?g" "n_clock w1 = Suc (n_clock w)" using g by simp_all
    have lt: "rank lag m1 w1 < rank lag m w" using rank_less [OF b(2) _ b(1) el] b pos by simp
    have bd: "0 \<le> dm_timeout m1" "dm_timeout m1 < 2 ^ 31" using b pos el(1) less.prems(6) by simp_all
    have clk: "elapsed_ok E ref lag (n_clock w1) hi" "clock_runs E (n_clock w1) hi"
      "n_clock w1 + rank lag m1 w1 < hi"
      using elapsed_ok_mono [OF less.prems(7)] clock_runs_mono [OF less.prems(8)] b(2) lt less.prems(9) by simp_all
    from less.hyps [OF lt ph m1(1) w1(1,2) bd clk] obtain x where
      "devmgr_loop E api SP_ITEM (Some a) t ref src inbytes dstmax again m1 w1 = Some (Inr x)"
      "some_run E api lag (verbose_on c) t dstmax a ?cl again q m1 w1 x" by blast
    moreover have "0 < dm_timeout m1" using b pos by simp
    from some_run_step [OF this rr nx q calculation(2)]
    have "some_run E api lag (verbose_on c) t dstmax a ?cl send p m w x" .
    moreover from calculation(1) nx r have
      "devmgr_loop E api SP_ITEM (Some a) t ref src inbytes dstmax send m w = Some (Inr x)"
      by (cases again) (simp_all add: unf)
    ultimately show ?thesis by blast
  qed
  show ?case
  proof (cases nx)
    case (Finish rc)
    have "some_run E api lag (verbose_on c) t dstmax a ?cl send p m w (rc, m1, w1)"
      using n Finish m1(2) w1
      by (auto simp: some_run_def loop_result_def lines_heard_def published_Suc
          published_def [of _ _ 0] Let_def intro!: exI [of _ "[(line, el)]"])
    with Finish r show ?thesis by (simp add: unf)
  qed (use go [of False] go [of True] in simp_all)
qed

section \<open>A whole call\<close>

lemma cmd_devmgr_any:
  assumes ex: "exchange_ok E api c src inbytes" and call: "call_ok E dth c dst dstmax w"
    and clk: "clock_ok E K c (n_clock w)" "clock_runs E (n_clock w) (n_clock w + readings K c)"
  shows "\<exists>ins rc k v w'. dm_run api dstmax Wait_ack (call_budget c) ins = Some (rc, k, v, length ins)
    \<and> cmd_devmgr E api (Some dth) dst inbytes src dstmax w = Some (Inr (rc, copied_to dstmax v dst, w'))
    \<and> out w' = out w @ concat (map (\<lambda>x. shown (verbose_on c) (timeout_ms c) (fst x)) ins)
    \<and> sock_out w' = sock_out w @ concat (replicate (Suc k) (command_line src inbytes))
    \<and> subseq (lines_heard ins) (published E (n_read w) (length ins)) \<and> n_read w' = n_read w + length ins
    \<and> length ins \<le> Suc (K + nat (call_budget c)) \<and> n_clock w' \<le> n_clock w + readings K c
    \<and> wf_idle w' \<and> readers (item w') = 0"
proof -
  let ?a = "rdr_next w" and ?m = "call_start E c dst" and ?cl = "command_line src inbytes"
  have o: "opts E = Some c" using ex by (simp add: exchange_ok_def)
  define lag where "lag = Suc (n_clock w) + K"
  let ?hi = "n_clock w + readings K c"
  obtain ref where ref: "os_clock E (n_clock w) = Some ref"
    using clk(2) by (auto simp: clock_runs_def readings_def)
  have ck: "elapsed_ok E ref lag (n_clock (call_world w)) ?hi" "clock_runs E (n_clock (call_world w)) ?hi"
    and rk: "rank lag ?m (call_world w) = K + nat (call_budget c)"
    using clk ref by (simp_all add: clock_ok_def clock_runs_def rank_def lag_def)
  have hi: "n_clock (call_world w) + rank lag ?m (call_world w) < ?hi"
    unfolding rk readings_def by simp
  have lock: "os_user (os_sp E) i" for i using ex by (simp add: exchange_ok_def)
  note st = call_start_ok [OF call]
  have live: "live_reader ?a (call_world w)" and nil: "carry ?a (call_world w) = []"
    using st(3) by (simp_all add: caught_up_def carry_def)
  have ml: "list_all (mild api) (carry ?a (call_world w))" by (simp add: nil)
  from devmgr_loop_any [OF ex st(1,2) live ml st(4,5) ck hi, of "timeout_ms c"] obtain rc m' w' where
    l: "devmgr_loop E api SP_ITEM (Some ?a) (timeout_ms c) ref src inbytes dstmax True ?m (call_world w)
      = Some (Inr (rc, m', w'))"
    and some: "some_run E api lag (verbose_on c) (timeout_ms c) dstmax ?a ?cl True Wait_ack ?m (call_world w) (rc, m', w')"
    by (metis prod_cases3)
  from some obtain ins k v where run: "dm_run api dstmax Wait_ack (call_budget c) ins = Some (rc, k, v, length ins)"
    and res: "loop_result dstmax (verbose_on c) (timeout_ms c) ?cl ins ?a (Suc k) v (length ins) ?m (call_world w) m' w'"
    and ord: "subseq (lines_heard ins @ carry ?a w') (published E (n_read w) (length ins))"
    and rd: "n_read w' = n_read w + length ins" "n_clock w' \<le> Suc (n_clock w) + length ins"
      "length ins \<le> Suc (K + nat (call_budget c))" by (auto simp: some_run_def nil rk)
  have "live_reader ?a w'" using res by (simp add: loop_result_def)
  moreover have "subseq (lines_heard ins) (published E (n_read w) (length ins))"
    by (rule subseq_order.trans [OF _ ord]) (simp add: list_emb_prefix)
  moreover have "n_clock w' \<le> n_clock w + readings K c" using rd(2,3) by (simp add: readings_def)
  ultimately show ?thesis using cmd_devmgr_frame [OF o call ref l _ lock lock] res run rd(1,3)
    by (fastforce simp: loop_result_def)
qed


text \<open>An I/O thread that publishes two lines before the first look at the buffer, and a clock that
  never fails, with two readings in a millisecond.\<close>

definition busy_env :: env where
  "busy_env = (play_env (demo_opts 1) [])\<lparr>
     os_sp := env_of [ev_quiet\<lparr>ev_before := [''other'' @ [NUL], ''nak'' @ [NUL]]\<rparr>],
     os_clock := steady_clock\<rparr>"

lemma steady_clock_runs: "os_clock E = steady_clock \<Longrightarrow> clock_runs E k hi"
  by (simp add: clock_runs_def steady_clock_def)

lemma busy_env_ok:
  "exchange_ok busy_env (jv_cjson demo_table) (demo_opts 1) ''ping'' 4"
  "call_ok busy_env demo_dth (demo_opts 1) (replicate 8 NUL) 8 demo_world"
  "clock_ok busy_env 1 (demo_opts 1) k" "clock_runs busy_env k hi"
proof -
  have "env_ok (env_of [ev_quiet\<lparr>ev_before := [''other'' @ [NUL], ''nak'' @ [NUL]]\<rparr>])"
    by (rule env_ok_env_of) (simp add: event_ok_def ts_valid_def frame_ok_def)
  moreover have "mild_env (jv_cjson demo_table) (os_sp busy_env)" by (simp add: mild_tableD)
  moreover have "exchange_ok (play_env (demo_opts 1) []) (jv_cjson demo_table) (demo_opts 1) ''ping'' 4"
    by (rule demo_run(1)) (simp_all add: command_ok_def)
  ultimately show "exchange_ok busy_env (jv_cjson demo_table) (demo_opts 1) ''ping'' 4"
    by (simp add: exchange_ok_def busy_env_def) (simp add: play_env_def env_of_def writes_all_def calls_return_def)
  have "call_ok (play_env (demo_opts 1) []) demo_dth (demo_opts 1) (replicate 8 NUL) 8 demo_world"
    by (rule demo_call_ok) simp_all
  then show "call_ok busy_env demo_dth (demo_opts 1) (replicate 8 NUL) 8 demo_world"
    by (simp add: call_ok_def busy_env_def) (simp add: play_env_def env_of_def)
  show "clock_ok busy_env 1 (demo_opts 1) k"
    by (rule steady_clock_ok) (simp_all add: busy_env_def call_budget_def)
  show "clock_runs busy_env k hi" by (rule steady_clock_runs) (simp add: busy_env_def)
qed


end
