(* ===== verification/Dterm_Run.thy ===== *)
theory Dterm_Run
  imports Dterm_Spec Devmgr_Peer
begin

text \<open>
  A stream of commands as a sequence of runs of the abstract protocol, for any peer: one run for
  each command, in order, up to the first that fails.
\<close>

section \<open>The code and the text of a command\<close>

text \<open>The code of a run fits an \<open>int\<close>.\<close>

lemma dm_run_range:
  assumes "0 < dstmax" and "dstmax < 2 ^ 31"
  shows "list_all (mild api) (lines_heard ins) \<Longrightarrow>
    dm_run api dstmax p g ins = Some (rc, k, v, n) \<Longrightarrow> int_ok rc"
proof (induction ins arbitrary: p g k n)
  case (Cons x ins)
  let ?v = "verdict_of api p (fst x)"
  have m: "pred_option (mild api) (fst x)" "list_all (mild api) (lines_heard ins)"
    using Cons.prems(1) by (cases "fst x"; simp add: lines_heard_def)+
  have s: "?v = Stop e \<Longrightarrow> e \<le> 0 \<and> - (2 ^ 31) \<le> e" for e
    using proto_Stop [of p _ e] proto_Stop_int [of _ p e] m(1)
    by (auto simp: verdict_of_def mild_def split: option.splits)
  show ?case
  proof (cases "next_of dstmax ?v (Some (g - snd x))")
    case (Finish e)
    with Cons.prems have "rc = e" by (simp add: dm_run_step)
    with Finish s assms show ?thesis
      by (cases ?v) (auto simp: int_ok_def copied_def split: if_splits)
  next
    case Again
    with Cons obtain q n0 where "dm_run api dstmax q (g - snd x) ins = Some (rc, k, v, n0)"
      by (auto simp: dm_run_step)
    then show ?thesis by (rule Cons.IH [OF m(2)])
  next
    case Resend
    with Cons obtain k0 n0 where "dm_run api dstmax Wait_ack (g - snd x) ins = Some (rc, k0, v, n0)"
      by (auto simp: dm_run_step)
    then show ?thesis by (rule Cons.IH [OF m(2)])
  qed
qed simp

lemma published_mild:
  assumes "mild_env api (os_sp E)" and "subseq hs (published E i n)"
  shows "list_all (mild api) hs"
proof -
  have "list_all (mild api) (published E i n)"
    using assms(1) by (auto simp: published_def mild_env_def list_all_iff)
  moreover have "set hs \<subseteq> set (published E i n)" using assms(2) by (auto elim: list_emb_set)
  ultimately show ?thesis by (auto simp: list_all_iff)
qed

lemma copied_to_length: "0 < dstmax \<Longrightarrow> dstmax \<le> length dst \<Longrightarrow> length (copied_to dstmax v dst) = length dst"
  by (cases v) (auto simp: copied_def)

text \<open>What is sent for a command that does not end in a newline: nothing, when it is empty.\<close>

definition sent_line :: "byte list \<Rightarrow> byte list" where
  "sent_line l = (if l = [] then [] else l @ [LF])"

lemma command_line_once:
  assumes "LF \<notin> set s"
  shows "command_line (s @ r) (int (length s)) = sent_line s"
proof (cases "s = []")
  case False
  with assms have "(s @ r) ! (length s - 1) \<noteq> LF" by (simp add: nth_append) (metis One_nat_def last_conv_nth last_in_set length_greater_0_conv diff_Suc_less)
  with False show ?thesis by (simp add: command_line_def sent_line_def)
qed (simp add: command_line_def sent_line_def)

section \<open>Sequences of runs\<close>

text \<open>A run: the inputs of its rounds, its code, and its repetitions.\<close>

type_synonym cmd_run = "(byte list option \<times> int) list \<times> int \<times> nat"

fun cmd_runs :: "'j cjson \<Rightarrow> int \<Rightarrow> (nat \<times> byte list) list \<Rightarrow> cmd_run list \<Rightarrow> bool" where
  "cmd_runs api g [] xs \<longleftrightarrow> xs = []"
| "cmd_runs api g (l # ls) [] \<longleftrightarrow> False"
| "cmd_runs api g (l # ls) ((ins, rc, k) # xs) \<longleftrightarrow>
     (\<exists>v. dm_run api 1024 Wait_ack g ins = Some (rc, k, v, length ins))
     \<and> (if rc < 0 then xs = [] else cmd_runs api g ls xs)"

definition stream_code :: "cmd_run list \<Rightarrow> int" where
  "stream_code xs = (if list_ex (\<lambda>(ins, rc, k). rc < 0) xs then -4 else 0)"

definition stream_inputs :: "cmd_run list \<Rightarrow> (byte list option \<times> int) list" where
  "stream_inputs xs = concat (map fst xs)"

fun stream_sent :: "(nat \<times> byte list) list \<Rightarrow> cmd_run list \<Rightarrow> byte list" where
  "stream_sent ((n, l) # ls) ((ins, rc, k) # xs) = concat (replicate (Suc k) (sent_line l)) @ stream_sent ls xs"
| "stream_sent _ _ = []"

definition echo_line :: "cliopt_t \<Rightarrow> nat \<Rightarrow> byte list \<Rightarrow> byte list" where
  "echo_line c n l =
     (if verbose_on c then E_MAG @ ''['' @ dec_nat (nat (int n mod 2 ^ 32)) @ '']<< '' @ E_NRM @ l @ [LF] else [])"

fun stream_shown :: "cliopt_t \<Rightarrow> (nat \<times> byte list) list \<Rightarrow> cmd_run list \<Rightarrow> byte list" where
  "stream_shown c ((n, l) # ls) ((ins, rc, k) # xs) =
     echo_line c n l @ concat (map (\<lambda>x. shown (verbose_on c) (timeout_ms c) (fst x)) ins)
     @ (if rc < 0 then error_reply rc @ failed_line rc else []) @ stream_shown c ls xs"
| "stream_shown c _ _ = []"

lemma echoed_emit: "echoed c n l w = emit (echo_line c n l) w"
  by (simp add: echoed_def echo_line_def)

lemma published_append: "published E i (m + n) = published E i m @ published E (i + m) n"
  by (induction m arbitrary: i) (simp_all add: published_Suc published_def [of _ _ 0])

text \<open>An environment for a whole stream, and the commands it is about.\<close>

definition stream_env :: "term_env \<Rightarrow> 'j cjson \<Rightarrow> cliopt_t \<Rightarrow> bool" where
  "stream_env T api c \<longleftrightarrow>
     cjson_ok api \<and> mild_env api (os_sp (t_env T)) \<and> opts (t_env T) = Some c \<and> opts_ok c
     \<and> env_ok (os_sp (t_env T)) \<and> calls_return (os_sp (t_env T)) \<and> writes_all (os_sp (t_env T))
     \<and> length (os_stack (t_env T)) = 1024 \<and> (\<forall>i. os_alloc (os_sp (t_env T)) i)
     \<and> (\<forall>i. os_clock (t_env T) i \<noteq> None) \<and> length (t_buf T) = 1024"

definition cmd_ok :: "term_env \<Rightarrow> 'j cjson \<Rightarrow> nat \<times> byte list \<times> byte list \<Rightarrow> bool" where
  "cmd_ok T api x \<longleftrightarrow>
     (case x of (n, l, b) \<Rightarrow> NUL \<notin> set l \<and> LF \<notin> set l \<and> length l < 2 ^ 31 \<and> head_ok T l
        \<and> \<not> cJSON_IsObject api (cJSON_Parse api l) \<and> (\<exists>r. b = l @ NUL # r))"

text \<open>One command of a stream.\<close>

lemma command_any:
  assumes E: "stream_env T api c" and x: "cmd_ok T api (n, l, b)"
    and d: "devmgr dth = SP_ITEM" "use_socket dth" and w: "idle_world w"
    and clk: "clock_ok (t_env T) K c (n_clock w)"
  shows "\<exists>ins rc k v m w'. dm_run api 1024 Wait_ack (call_budget c) ins = Some (rc, k, v, length ins)
    \<and> sub_proc_lineinput T api (dth\<lparr>tctx := t_pool T\<rparr>) (Some None) b (int (length l)) (echoed c n l w)
      = Some (Inr (m, Some (Some rc), w'))
    \<and> out w' = out w @ echo_line c n l @ concat (map (\<lambda>x. shown (verbose_on c) (timeout_ms c) (fst x)) ins)
        @ (if rc < 0 then error_reply rc else [])
    \<and> sock_out w' = sock_out w @ concat (replicate (Suc k) (sent_line l))
    \<and> subseq (lines_heard ins) (published (t_env T) (n_read w) (length ins))
    \<and> n_read w' = n_read w + length ins \<and> n_clock w' \<le> n_clock w + readings K c \<and> idle_world w'"
proof -
  let ?E = "t_env T" and ?d = "dth\<lparr>tctx := t_pool T\<rparr>" and ?w = "echoed c n l w"
  from x obtain r where l: "NUL \<notin> set l" "LF \<notin> set l" "length l < 2 ^ 31" "b = l @ NUL # r"
    and api: "\<not> cJSON_IsObject api (cJSON_Parse api l)" by (auto simp: cmd_ok_def)
  have e: "mild_env api (os_sp ?E)" "length (t_buf T) = 1024" using E by (simp_all add: stream_env_def)
  have ex: "exchange_ok ?E api c b (int (length l))"
    using E l by (simp add: stream_env_def exchange_ok_def command_ok_def)
  have "idle_world ?w" using w by simp
  then have call: "call_ok ?E ?d c ((t_buf T)[0 := NUL]) 1024 ?w"
    using E d by (simp add: stream_env_def call_ok_def idle_world_def)
  have ck: "n_clock ?w = n_clock w" "clock_ok ?E K c (n_clock ?w)"
    "clock_runs ?E (n_clock ?w) (n_clock ?w + readings K c)"
    using E clk by (simp_all add: stream_env_def clock_runs_def echoed_def)
  have ew: "n_read ?w = n_read w" "sock_out ?w = sock_out w" "out ?w = out w @ echo_line c n l"
    by (simp_all add: echoed_emit emit_def)
  from cmd_devmgr_any [OF ex call ck(2,3)] obtain ins rc k v w1 where
    run: "dm_run api 1024 Wait_ack (call_budget c) ins = Some (rc, k, v, length ins)"
    and cmd: "cmd_devmgr ?E api (Some ?d) ((t_buf T)[0 := NUL]) (int (length l)) b 1024 ?w
      = Some (Inr (rc, copied_to 1024 v ((t_buf T)[0 := NUL]), w1))"
    and o1: "out w1 = out ?w @ concat (map (\<lambda>x. shown (verbose_on c) (timeout_ms c) (fst x)) ins)"
    and s1: "sock_out w1 = sock_out ?w @ concat (replicate (Suc k) (command_line b (int (length l))))"
    and h: "subseq (lines_heard ins) (published ?E (n_read ?w) (length ins))"
      "n_read w1 = n_read ?w + length ins" "n_clock w1 \<le> n_clock ?w + readings K c"
    and w1: "wf_idle w1" "readers (item w1) = 0" by blast
  note h = h(1,2) h(3) [unfolded ck(1)]
  have rc: "int_ok rc" using dm_run_range [OF _ _ published_mild [OF e(1) h(1)] run] by simp
  have dst: "length (copied_to 1024 v ((t_buf T)[0 := NUL])) = 1024" using copied_to_length e(2) by simp
  from plain_line_eq [OF api l(1) e(2) cmd [unfolded l(4)] rc dst, of None]
  have "sub_proc_lineinput T api ?d (Some None) b (int (length l)) ?w = Some (Inr (line_result rc w1))"
    unfolding l(4) .
  moreover have "sock_out w1 = sock_out w @ concat (replicate (Suc k) (sent_line l))"
    unfolding s1 ew(2) l(4) command_line_once [OF l(2)] ..
  moreover have "idle_world w1" using w1 by (simp add: idle_world_def)
  ultimately show ?thesis using run o1 h unfolding ew
    by (cases "rc < 0") (fastforce simp: line_result_def emit_def idle_world_def wf_idle_def wf_world_def)+
qed

section \<open>A stream\<close>

text \<open>The effects of the runs \<open>xs\<close> of the commands \<open>cs\<close>.\<close>

definition stream_effect ::
    "env \<Rightarrow> cliopt_t \<Rightarrow> (nat \<times> byte list) list \<Rightarrow> cmd_run list \<Rightarrow> world \<Rightarrow> world \<Rightarrow> bool" where
  "stream_effect E c cs xs w w' \<longleftrightarrow>
     sock_out w' = sock_out w @ stream_sent cs xs \<and> out w' = out w @ stream_shown c cs xs
     \<and> n_read w' = n_read w + length (stream_inputs xs)
     \<and> subseq (lines_heard (stream_inputs xs)) (published E (n_read w) (length (stream_inputs xs)))"

lemma lines_heard_append [simp]: "lines_heard (xs @ ys) = lines_heard xs @ lines_heard ys"
  by (simp add: lines_heard_def)

lemma stream_inputs_simps [simp]:
  "stream_inputs [] = []" "stream_inputs ((ins, rc, k) # xs) = ins @ stream_inputs xs"
  by (simp_all add: stream_inputs_def)

lemma stream_effect_Nil [simp]: "stream_effect E c cs [] w w"
  by (cases cs) (auto simp: stream_effect_def lines_heard_def)

lemma run_cmds_any:
  assumes E: "stream_env T api c" and d: "devmgr dth = SP_ITEM" "use_socket dth"
  shows "list_all (cmd_ok T api) cs \<Longrightarrow> idle_world w \<Longrightarrow>
    (\<And>k. k < n_clock w + length cs * readings K c \<Longrightarrow> clock_ok (t_env T) K c k) \<Longrightarrow>
    \<exists>xs w'. run_cmds T api dth c cs w = Some (Inr (stream_code xs, w'))
      \<and> cmd_runs api (call_budget c) (map (\<lambda>(n, l, b). (n, l)) cs) xs
      \<and> stream_effect (t_env T) c (map (\<lambda>(n, l, b). (n, l)) cs) xs w w' \<and> idle_world w'"
proof (induction cs arbitrary: w)
  case Nil
  then show ?case by (intro exI [of _ "[]"]) (simp add: stream_code_def)
next
  case (Cons x cs)
  obtain n l b where x: "x = (n, l, b)" by (cases x)
  have ok: "cmd_ok T api (n, l, b)" "list_all (cmd_ok T api) cs" using Cons.prems(1) x by simp_all
  then have hd: "head_ok T l" by (simp add: cmd_ok_def)
  have ck: "clock_ok (t_env T) K c (n_clock w)" by (rule Cons.prems(3)) (simp add: readings_def)
  from command_any [OF E ok(1) d Cons.prems(2) ck] obtain ins rc k v m w1 where
    run: "dm_run api 1024 Wait_ack (call_budget c) ins = Some (rc, k, v, length ins)"
    and sub: "sub_proc_lineinput T api (dth\<lparr>tctx := t_pool T\<rparr>) (Some None) b (int (length l)) (echoed c n l w)
      = Some (Inr (m, Some (Some rc), w1))"
    and o1: "out w1 = out w @ echo_line c n l @ concat (map (\<lambda>x. shown (verbose_on c) (timeout_ms c) (fst x)) ins)
        @ (if rc < 0 then error_reply rc else [])"
    and s1: "sock_out w1 = sock_out w @ concat (replicate (Suc k) (sent_line l))"
    and h: "subseq (lines_heard ins) (published (t_env T) (n_read w) (length ins))"
      "n_read w1 = n_read w + length ins" and n: "n_clock w1 \<le> n_clock w + readings K c"
      and w1: "idle_world w1" by blast
  have ck1: "clock_ok (t_env T) K c k" if "k < n_clock w1 + length cs * readings K c" for k
    by (rule Cons.prems(3)) (use that n in simp)
  show ?case
  proof (cases "rc < 0")
    case True
    let ?w = "emit (failed_line rc) w1"
    have "stream_effect (t_env T) c (map (\<lambda>(n, l, b). (n, l)) (x # cs)) [(ins, rc, k)] w ?w"
      using o1 s1 h True by (cases cs) (auto simp: stream_effect_def x emit_def)
    moreover have "idle_world ?w" using w1 by simp
    ultimately show ?thesis using run sub hd True
      by (intro exI [of _ "[(ins, rc, k)]"] exI [of _ ?w]) (simp add: x stream_code_def)
  next
    case False
    from Cons.IH [OF ok(2) w1 ck1] obtain xs w' where
      r: "run_cmds T api dth c cs w1 = Some (Inr (stream_code xs, w'))"
      "cmd_runs api (call_budget c) (map (\<lambda>(n, l, b). (n, l)) cs) xs"
      and e: "stream_effect (t_env T) c (map (\<lambda>(n, l, b). (n, l)) cs) xs w1 w'" and w': "idle_world w'" by blast
    have "subseq (lines_heard ins @ lines_heard (stream_inputs xs))
        (published (t_env T) (n_read w) (length ins + length (stream_inputs xs)))"
      unfolding published_append using h e by (intro list_emb_append_mono) (auto simp: stream_effect_def)
    then have "stream_effect (t_env T) c (map (\<lambda>(n, l, b). (n, l)) (x # cs)) ((ins, rc, k) # xs) w w'"
      using e o1 s1 h(2) False by (simp add: stream_effect_def x)
    then show ?thesis using run sub hd False r w'
      by (intro exI [of _ "(ins, rc, k) # xs"] exI [of _ w']) (auto simp: x stream_code_def)
  qed
qed

definition numbered :: "byte list \<Rightarrow> (nat \<times> byte list) list" where
  "numbered s = map (\<lambda>(n, l, b). (n, l)) (cmd_blocks (map san s) [])"


lemma busy_stream: "stream_env (demo_term busy_env) (jv_cjson demo_table) (demo_opts 1)"
  using busy_env_ok(1,2)
  by (simp add: stream_env_def exchange_ok_def call_ok_def)
     (simp add: busy_env_def env_of_def steady_clock_def)


end
