(* ===== verification/Main_Exchange.thy ===== *)
theory Main_Exchange
  imports Main_Spec Dterm_Run
begin

text \<open>
  The program from end to end: a command typed on standard input, the exchange with the daemon that
  it starts, and what the user sees of it.
\<close>

section \<open>A stream of one line with its newline\<close>

lemma one_line_cmdstream:
  assumes o: "opts (t_env T) = Some c" and s: "one_line s" "length s < 2 ^ 31 - 1" and hd: "head_ok T s"
    and l: "sub_proc_lineinput T api (dth\<lparr>tctx := t_pool T\<rparr>) (Some None) (s @ NUL # NUL # r)
        (int (length s)) (echoed c (Suc (length s)) s w) = Some (Inr (n, Some (Some rc), w'))"
  shows "dterm_cmdstream T api dth (Some (s @ LF # NUL # r)) w =
    Some (Inr (if rc < 0 then -4 else 0, dth\<lparr>tctx := False\<rparr>, Some (s @ NUL # NUL # r),
               if rc < 0 then emit (failed_line rc) w' else w'))"
proof -
  let ?t = "s @ [LF]"
  have cs: "NUL \<notin> set ?t" "length ?t < 2 ^ 31" "CR \<notin> set ?t" "s \<noteq> []"
    using s by (auto simp: one_line_def)
  have n: "to_int (int (length ?t)) = int (length ?t)" "to_size (int (length ?t)) = length ?t"
  proof -
    show "to_int (int (length ?t)) = int (length ?t)"
      using cs(2) by (intro to_int_id) (simp add: int_ok_def)
    have "int (length ?t) mod 2 ^ 64 = int (length ?t)"
      using cs(2) by (intro mod_pos_pos_trivial) auto
    then show "to_size (int (length ?t)) = length ?t" unfolding to_size_def by (simp only: nat_int)
  qed
  have h: "dropWhile isspace ?t = ?t" "takeWhile (\<lambda>c. c \<noteq> LF) ?t = s" "takeWhile isspace ?t = []"
    "s \<noteq> ?t" using one_line_head(1) [OF s(1), of "[LF]"] one_line_head(3) [OF s(1), of "[]"] s(1)
    by (auto simp: one_line_def neq_Nil_conv)
  have p: "cmdstream_pass T api dth (?t @ NUL # r) (int (length ?t)) 0 w =
     Some (Inr (if rc < 0 then (None, dth\<lparr>tctx := False\<rparr>, s @ NUL # NUL # r, emit (failed_line rc) w')
       else (Some (0, Suc (length s)), dth\<lparr>tctx := False\<rparr>, s @ NUL # NUL # r, w')))"
    using cmdstream_pass_eq [OF o cs(1,2), of api dth "[]" r w] l h hd by (simp add: rest_state_def)
  have "cstrlen (?t @ NUL # r) = Inr (length ?t)" by (rule cstrlen_append [OF cs(1)])
  moreover have "sub_str_sanitize (length ?t) (?t @ NUL # r) 0 = Inr (?t @ NUL # r)"
    using sanitize_eq [OF cs(1), of "[]" r, unfolded san_id [OF cs(3)]]
    by (simp only: append_Nil list.size)
  moreover have "cmdstream_loop T api dth (?t @ NUL # r) (int (length ?t)) 0 w =
     Some (Inr (if rc < 0 then -4 else 0, dth\<lparr>tctx := False\<rparr>, s @ NUL # NUL # r,
                if rc < 0 then emit (failed_line rc) w' else w'))"
    using p by (subst cmdstream_loop_unfold) (simp add: cmdstream_loop_unfold [of _ _ _ _ 0])
  ultimately show ?thesis unfolding dterm_cmdstream_def using n by simp
qed

section \<open>What the user sees\<close>

text \<open>The output of a run for the command \<open>s\<close>, whose exchange ends with the code \<open>rc\<close> after the
  inputs \<open>ins\<close>; and what is written to standard error at its end.\<close>

definition session_out :: "cliopt_t \<Rightarrow> byte list \<Rightarrow> (byte list option \<times> int) list \<Rightarrow> int \<Rightarrow> byte list" where
  "session_out c s ins rc =
     (if verbose_on c
      then E_MAG @ ''['' @ dec_nat (Suc (length s)) @ '']<< '' @ E_NRM @ s @ [LF] else [])
     @ concat (map (\<lambda>x. shown (verbose_on c) (timeout_ms c) (fst x)) ins)
     @ (if rc < 0 then error_reply rc @ failed_line rc
        else if verbose_on c then E_CYN @ ''MSG: '' @ E_NRM @ ''Command finished successfully'' @ [LF]
        else [])"

definition failure_notice :: "byte list \<Rightarrow> byte list" where
  "failure_notice s = E_RED @ ''ERR: '' @ E_NRM @ ''Error running command: '' @ s @ ''.'' @ [LF]"

text \<open>What an exchange needs of its host: the JSON library is as documented, calls return, the socket takes
  every byte, and the reader can be allocated; and what it needs of its peer: no published
  acknowledgement has an error code that overflows, and every line is a terminated one.\<close>

definition host_ready :: "env \<Rightarrow> 'j cjson \<Rightarrow> world \<Rightarrow> bool" where
  "host_ready E api w \<longleftrightarrow>
     cjson_ok api \<and> calls_return (os_sp E) \<and> writes_all (os_sp E)
     \<and> length (os_stack E) = 1024 \<and> os_alloc (os_sp E) (n_alloc w)"

definition peer_ready :: "env \<Rightarrow> 'j cjson \<Rightarrow> world \<Rightarrow> bool" where
  "peer_ready E api w \<longleftrightarrow> host_ready E api w \<and> mild_env api (os_sp E) \<and> env_ok (os_sp E)"

lemmas peer_ready_defs = peer_ready_def host_ready_def

lemma report_eq:
  assumes "NUL \<notin> set s" and "cmdrc = 0 \<or> cmdrc = -4"
  shows "report_cmdrc (Some c) cmdrc (s @ NUL # r) w = Inr
    (if cmdrc = 0 then if verbose_on c
       then emit (E_CYN @ ''MSG: '' @ E_NRM @ ''Command finished successfully'' @ [LF]) w else w
     else emit_err (failure_notice s) w)"
  using assms(2) cstring_append [OF assms(1), of r]
  by (auto simp: report_cmdrc_def VERBOSE_PRINTF_def cliopt_isverbose_def failure_notice_def)

lemma opens_sp:
  assumes "opens P argv"
  obtains sp live where "p_talloc_ok P" "p_cancel_rc P = 0"
    "sp_open (p_open P) False (Some (socket_filename (p_args P (formal_args argv)))) 0 {}
      = Inr (0, Some sp, live)" "sp_close 0 True SP_ITEM live = Inr (0, {})"
proof -
  from assms obtain sp live where o: "p_talloc_ok P" "p_cancel_rc P = 0"
    "sp_open (p_open P) False (Some (socket_filename (p_args P (formal_args argv)))) 0 {}
      = Inr (0, Some sp, live)" by (auto simp: opens_def)
  from sp_open_live [of "p_open P" False "Some (socket_filename (p_args P (formal_args argv)))" 0] o(3)
  have "live = (if 0 \<le> socket_fd (p_open P) then UNIV else UNIV - {R_fd})" by auto
  then have "sp_close 0 True SP_ITEM live = Inr (0, {})"
    by (cases "0 \<le> socket_fd (p_open P)") (auto simp: all_resources sp_close_def release_def foreign_unlock_def)
  with o that show thesis by blast
qed

text \<open>What a stream of the one line \<open>s\<close> leaves, whose exchange took the inputs \<open>ins\<close>, \<open>k\<close> repetitions, and
  gave the code \<open>rc\<close>; the stream goes on with \<open>r\<close> after its terminator.\<close>

definition line_effect ::
    "dterm_handle_t \<Rightarrow> cliopt_t \<Rightarrow> byte list \<Rightarrow> byte list \<Rightarrow> (byte list option \<times> int) list \<Rightarrow> int \<Rightarrow> nat
     \<Rightarrow> world \<Rightarrow> int \<times> dterm_handle_t \<times> byte list option \<times> world \<Rightarrow> bool" where
  "line_effect dth c s r ins rc k w x \<longleftrightarrow>
     (let (cmdrc, dth', m, w') = x in
      cmdrc = (if rc < 0 then -4 else 0) \<and> dth' = dth\<lparr>tctx := False\<rparr> \<and> m = Some (s @ NUL # NUL # r)
      \<and> sock_out w' = sock_out w @ concat (replicate (Suc k) (s @ [LF]))
      \<and> out w' @ (if rc < 0 then [] else if verbose_on c
           then E_CYN @ ''MSG: '' @ E_NRM @ ''Command finished successfully'' @ [LF] else [])
         = out w @ session_out c s ins rc)"

definition line_ready ::
    "term_env \<Rightarrow> 'j cjson \<Rightarrow> dterm_handle_t \<Rightarrow> cliopt_t \<Rightarrow> byte list \<Rightarrow> world \<Rightarrow> bool" where
  "line_ready T api dth c s w \<longleftrightarrow>
     peer_ready (t_env T) api w \<and> opts (t_env T) = Some c \<and> opts_ok c \<and> length (t_buf T) = 1024
     \<and> one_line s \<and> length s < 1023 \<and> head_ok T s \<and> \<not> cJSON_IsObject api (cJSON_Parse api s)
     \<and> devmgr dth = SP_ITEM \<and> use_socket dth \<and> idle_world w"

lemma line_ready_call:
  assumes "line_ready T api dth c s w"
  defines "w' \<equiv> echoed c (Suc (length s)) s w"
  shows "exchange_ok (t_env T) api c (s @ NUL # r) (int (length s))"
    "call_ok (t_env T) (dth\<lparr>tctx := t_pool T\<rparr>) c ((t_buf T)[0 := NUL]) 1024 w'"
    "n_clock w' = n_clock w" "n_read w' = n_read w" "sock_out w' = sock_out w"
proof -
  show e: "n_clock w' = n_clock w" "n_read w' = n_read w" "sock_out w' = sock_out w"
    by (simp_all add: w'_def echoed_def emit_def)
  have "n_alloc w' = n_alloc w" by (simp add: w'_def echoed_def emit_def)
  then show "call_ok (t_env T) (dth\<lparr>tctx := t_pool T\<rparr>) c ((t_buf T)[0 := NUL]) 1024 w'"
    using assms(1) idle_echoed [of c "Suc (length s)" s w]
    by (simp add: line_ready_def call_ok_def peer_ready_defs idle_world_def w'_def)
  show "exchange_ok (t_env T) api c (s @ NUL # r) (int (length s))"
    using assms(1) by (simp add: line_ready_def exchange_ok_def peer_ready_defs command_ok_def one_line_def)
qed

lemma one_line_exchange:
  assumes rdy: "line_ready T api dth c s w"
    and run: "dm_run api 1024 Wait_ack (call_budget c) ins = Some (rc, k, v, n)"
    and ml: "list_all (mild api) (lines_heard ins)"
    and cmd: "cmd_devmgr (t_env T) api (Some (dth\<lparr>tctx := t_pool T\<rparr>)) ((t_buf T)[0 := NUL]) (int (length s))
        (s @ NUL # NUL # r) 1024 (echoed c (Suc (length s)) s w)
      = Some (Inr (rc, copied_to 1024 v ((t_buf T)[0 := NUL]), w1))"
    and o1: "out w1 = out (echoed c (Suc (length s)) s w)
      @ concat (map (\<lambda>x. shown (verbose_on c) (timeout_ms c) (fst x)) shw)"
    and s1: "sock_out w1 = sock_out w @ concat (replicate (Suc k) (command_line (s @ NUL # NUL # r) (int (length s))))"
  shows "\<exists>x. dterm_cmdstream T api dth (Some (s @ LF # NUL # r)) w = Some (Inr x)
    \<and> line_effect dth c s r shw rc k w x"
proof -
  let ?w = "echoed c (Suc (length s)) s w" and ?d = "dth\<lparr>tctx := t_pool T\<rparr>" and ?m = "s @ NUL # NUL # r"
  have f: "opts (t_env T) = Some c" "length (t_buf T) = 1024" "one_line s" "length s < 1023"
    "\<not> cJSON_IsObject api (cJSON_Parse api s)" "head_ok T s"
    using rdy by (simp_all add: line_ready_def peer_ready_defs)
  have s': "NUL \<notin> set s" "length s < 2 ^ 31 - 1" using f(3,4) by (simp_all add: one_line_def)
  have rc: "int_ok rc" using dm_run_range [OF _ _ ml run] by simp
  have dst: "length (copied_to 1024 v ((t_buf T)[0 := NUL])) = 1024" using copied_to_length f(2) by simp
  obtain b where "line_result rc w1 = (b, Some (Some rc), if rc < 0 then emit (error_reply rc) w1 else w1)"
    by (cases "rc < 0") (simp_all add: line_result_def)
  with plain_line_eq [OF f(5) s'(1) f(2) cmd rc dst, of None]
  have l: "sub_proc_lineinput T api ?d (Some None) ?m (int (length s)) ?w =
      Some (Inr (b, Some (Some rc), if rc < 0 then emit (error_reply rc) w1 else w1))" by simp
  have "int (Suc (length s)) mod 2 ^ 32 = int (Suc (length s))"
    using f(4) by (intro mod_pos_pos_trivial) auto
  then have ow: "out ?w = out w @ (if verbose_on c
      then E_MAG @ ''['' @ dec_nat (Suc (length s)) @ '']<< '' @ E_NRM @ s @ [LF] else [])"
    by (simp only: echoed_def nat_int emit_def) simp
  show ?thesis unfolding one_line_cmdstream [OF f(1,3) s'(2) f(6) l]
    using s1 o1 ow command_line_once [of s "NUL # NUL # r"] f(3)
    by (simp add: emit_def session_out_def line_effect_def one_line_def sent_line_def)
qed

lemma script_mild:
  "script E t ref i j ins \<Longrightarrow> mild_env api (os_sp E) \<Longrightarrow> list_all (mild api) (lines_heard ins)"
proof (induction ins arbitrary: i j)
  case (Cons x ins)
  from Cons.prems have "ev_during (os_event (os_sp E) i) = fst x" by (simp add: plays_def Let_def)
  moreover have "list_all (mild api) (ev_lines (os_event (os_sp E) i))"
    using Cons.prems(2) by (simp add: mild_env_def)
  ultimately have "list_all (mild api) (heard (fst x))" by (cases "fst x") (simp_all add: ev_lines_def)
  moreover from Cons.prems have "script E t ref (Suc i) (Suc j) ins" by simp
  from Cons.IH [OF this Cons.prems(2)] have "list_all (mild api) (lines_heard ins)" .
  ultimately show ?case by (simp add: lines_heard_def)
qed (simp add: lines_heard_def)

lemma line_by_script:
  assumes rdy: "line_ready T api dth c s w" and ref: "os_clock (t_env T) (n_clock w) = Some ref"
    and sc: "script (t_env T) (to_size (timeout_ms c)) ref (n_read w) (Suc (n_clock w)) ins"
    and run: "dm_run api 1024 Wait_ack (call_budget c) ins = Some (rc, k, v, n)"
  shows "\<exists>x. dterm_cmdstream T api dth (Some (s @ LF # NUL # r)) w = Some (Inr x)
    \<and> line_effect dth c s r (take n ins) rc k w x"
proof -
  note c = line_ready_call [OF rdy]
  have "list_all (mild api) (lines_heard ins)"
    using script_mild [OF sc, of api] rdy by (simp add: line_ready_def peer_ready_def)
  from cmd_devmgr_run [OF c(1,2) _ _ run, unfolded c(3,4,5), OF ref sc, of "NUL # r"]
    one_line_exchange [OF rdy run this] show ?thesis by blast
qed

lemma line_of_any_peer:
  assumes rdy: "line_ready T api dth c s w"
    and clk: "clock_ok (t_env T) K c (n_clock w)"
      "clock_runs (t_env T) (n_clock w) (n_clock w + readings K c)"
  shows "\<exists>ins rc k v x. dm_run api 1024 Wait_ack (call_budget c) ins = Some (rc, k, v, length ins)
    \<and> subseq (lines_heard ins) (published (t_env T) (n_read w) (length ins))
    \<and> dterm_cmdstream T api dth (Some (s @ LF # NUL # r)) w = Some (Inr x)
    \<and> line_effect dth c s r ins rc k w x"
proof -
  note c = line_ready_call [OF rdy]
  have "mild_env api (os_sp (t_env T))" using rdy by (simp add: line_ready_def peer_ready_def)
  note ml = published_mild [OF this]
  from cmd_devmgr_any [OF c(1,2), unfolded c(3,4,5), OF clk, of "NUL # r"] one_line_exchange [OF rdy _ ml]
  show ?thesis by blast
qed

section \<open>The program\<close>

lemma first_line_whole: "NUL \<notin> set s \<Longrightarrow> LF \<notin> set s \<Longrightarrow> length s < n \<Longrightarrow> first_line n (s @ LF # r) = s @ [LF]"
proof (induction s arbitrary: n)
  case Nil
  then show ?case by (cases n) auto
next
  case (Cons a s)
  then show ?case by (cases n) auto
qed

lemma stdin_line:
  assumes "p_input P = bytes_in (s @ LF # ahead)" and "one_line s" and "length s < 1023"
    and "p_malloc P 1024 = Some (replicate 1024 NUL)"
  shows "stdin_command P = Inr (Some (s @ LF # NUL # replicate (1022 - length s) NUL))"
proof -
  have "first_line 1024 (s @ LF # ahead) = s @ [LF]"
    using assms(2,3) by (intro first_line_whole) (auto simp: one_line_def)
  moreover have "drop (length (s @ [LF])) (replicate 1024 NUL) = NUL # replicate (1022 - length s) NUL"
    using assms(3) by (simp add: drop_replicate Suc_diff_Suc [symmetric] flip: replicate_Suc)
  ultimately show ?thesis using stdin_command_eq [OF assms(1) _ assms(4)] by simp
qed

text \<open>The program is started on the command \<open>s\<close>, typed on standard input.\<close>

definition session_host ::
    "main_env \<Rightarrow> byte list list \<Rightarrow> env \<Rightarrow> 'j cjson \<Rightarrow> byte list \<Rightarrow> world \<Rightarrow> bool" where
  "session_host P argv E api s w \<longleftrightarrow>
     started P argv \<and> opens P argv \<and> p_unlock_ok P \<and> inline_args argv = []
     \<and> (\<exists>ahead. p_input P = bytes_in (s @ LF # ahead)) \<and> one_line s \<and> length s < 1023
     \<and> head_ok (p_term P) s \<and> \<not> cJSON_IsObject api (cJSON_Parse api s) \<and> p_malloc P 1024 = Some (replicate 1024 NUL)
     \<and> length (p_linebuf P) = 1024 \<and> length (t_buf (p_term P)) = 1024
     \<and> E = (t_env (p_term P))\<lparr>opts := Some (main_opts P argv)\<rparr> \<and> host_ready E api w
     \<and> rdr_cells w = Map.empty"

text \<open>\<open>session_ready\<close> adds what is asked of the lines the I/O thread publishes.\<close>

definition session_ready ::
    "main_env \<Rightarrow> byte list list \<Rightarrow> env \<Rightarrow> 'j cjson \<Rightarrow> byte list \<Rightarrow> world \<Rightarrow> bool" where
  "session_ready P argv E api s w \<longleftrightarrow>
     session_host P argv E api s w \<and> mild_env api (os_sp E) \<and> env_ok (os_sp E)"

lemmas session_ready_defs = session_ready_def session_host_def

text \<open>The effects of the whole run.\<close>

definition session_effect ::
    "cliopt_t \<Rightarrow> byte list \<Rightarrow> (byte list option \<times> int) list \<Rightarrow> int \<Rightarrow> nat \<Rightarrow> world \<Rightarrow> world \<Rightarrow> bool" where
  "session_effect c s ins rc k w w' \<longleftrightarrow>
     sock_out w' = sock_out w @ concat (replicate (Suc k) (s @ [LF]))
     \<and> out w' = out w @ session_out c s ins rc
     \<and> (\<exists>e. err w' = e @ (if rc < 0 then failure_notice s else []))"

lemma main_opts_ok [simp]: "opts_ok (main_opts P argv)" "timeout_ms (main_opts P argv) = 500"
  "call_budget (main_opts P argv) = 750"
  by (simp_all add: main_opts_def call_budget_def)

lemma session_line:
  assumes rdy: "session_ready P argv E api s w"
    and "sp_open (p_open P) False (Some (socket_filename (p_args P (formal_args argv)))) 0 {}
      = Inr (0, Some sp, live)"
  defines "T \<equiv> main_term_env P (main_opts P argv)"
    and "w1 \<equiv> w\<lparr>item := sp_thread_init (p_linebuf P) sp\<rparr>"
  shows "line_ready T api (main_dth P) (main_opts P argv) s w1" "t_env T = E"
    "n_clock w1 = n_clock w" "n_read w1 = n_read w" "sock_out w1 = sock_out w" "out w1 = out w"
proof -
  show w1: "n_clock w1 = n_clock w" "n_read w1 = n_read w" "sock_out w1 = sock_out w" "out w1 = out w"
    by (simp_all add: w1_def)
  show T: "t_env T = E" using rdy by (simp add: session_ready_defs T_def main_term_env_def)
  have "idle_world w1"
    using sp_open_item [OF assms(2)] rdy
    by (simp add: session_ready_defs idle_world_def wf_idle_def wf_world_def w1_def)
  moreover have "peer_ready E api w1" "opts E = Some (main_opts P argv)"
    using rdy by (auto simp: session_ready_defs peer_ready_defs w1_def)
  ultimately show "line_ready T api (main_dth P) (main_opts P argv) s w1"
    using rdy by (simp add: line_ready_def T)
      (simp add: T_def main_term_env_def main_dth_def session_ready_defs)
qed

lemma session_main:
  assumes rdy: "session_ready P argv E api s w"
    and op: "sp_open (p_open P) False (Some (socket_filename (p_args P (formal_args argv)))) 0 {}
      = Inr (0, Some sp, live)"
    and stream: "dterm_cmdstream (main_term_env P (main_opts P argv)) api (main_dth P)
        (Some (s @ LF # NUL # replicate (1022 - length s) NUL)) (w\<lparr>item := sp_thread_init (p_linebuf P) sp\<rparr>)
      = Some (Inr x)"
    and eff: "line_effect (main_dth P) (main_opts P argv) s (replicate (1022 - length s) NUL) ins rc k
      (w\<lparr>item := sp_thread_init (p_linebuf P) sp\<rparr>) x"
  shows "\<exists>w'. main P api argv w = Some (Inr (0, {}, w')) \<and> session_effect (main_opts P argv) s ins rc k w w'"
proof -
  let ?c = "main_opts P argv" and ?r = "replicate (1022 - length s) NUL"
  have r: "started P argv" "opens P argv" "inline_args argv = []" "one_line s" "length s < 1023"
    "p_unlock_ok P" "p_malloc P 1024 = Some (replicate 1024 NUL)" using rdy by (simp_all add: session_ready_defs)
  from rdy obtain ahead where inp: "p_input P = bytes_in (s @ LF # ahead)" by (auto simp: session_ready_defs)
  from r(2) op have o: "p_talloc_ok P" "p_cancel_rc P = 0" "sp_close 0 (p_unlock_ok P) SP_ITEM live = Inr (0, {})"
    using r(6) by (auto elim: opens_sp)
  have "NUL \<notin> set s" using r(4) by (simp add: one_line_def)
  note rep = report_eq [OF this]
  obtain w2 where x: "x = (if rc < 0 then -4 else 0, (main_dth P)\<lparr>tctx := False\<rparr>, Some (s @ NUL # NUL # ?r), w2)"
    and so: "sock_out w2 = sock_out w @ concat (replicate (Suc k) (s @ [LF]))"
    and ou: "out w2 @ (if rc < 0 then [] else if verbose_on ?c
         then E_CYN @ ''MSG: '' @ E_NRM @ ''Command finished successfully'' @ [LF] else [])
       = out w @ session_out ?c s ins rc"
    using eff by (cases x) (auto simp: line_effect_def)
  have de: "dterm_deinit ((main_dth P)\<lparr>tctx := False\<rparr>) {Ctx_p} = Inr {}"
    by (simp add: dterm_deinit_def talloc_free_def main_dth_def)
  have cmd: "stdin_command P = Inr (Some (s @ LF # NUL # ?r))" by (rule stdin_line [OF inp r(4,5,7)])
  have "ottercat_main P api (Some ?c) (Some (socket_filename (p_args P (formal_args argv)))) (Some (s @ LF # NUL # ?r)) w
      = Some (rbind (report_cmdrc (Some ?c) (if rc < 0 then -4 else 0) (s @ NUL # NUL # ?r) w2) (\<lambda>w'. Inr (0, {}, w')))"
    using o op de stream x
    by (cases "rc < 0")
       (simp_all add: ottercat_main_def main_term_def dterm_init_ok main_dth_def [symmetric]
         main_term_env_def [symmetric] rep Let_def)
  then have "main P api argv w = Some (rbind (report_cmdrc (Some ?c) (if rc < 0 then -4 else 0)
      (s @ NUL # NUL # ?r) w2) (\<lambda>w'. Inr (0, {}, w')))"
    unfolding main_started [OF r(1) inline_command_none [OF r(3)], simplified] by (simp add: cmd)
  then show ?thesis using so ou
    by (cases "rc < 0"; cases "verbose_on ?c") (auto simp: rep emit_def emit_err_def session_effect_def)
qed



section \<open>Concrete sessions\<close>

definition prompt_inputs :: "(byte list option \<times> int) list" where
  "prompt_inputs = [said ''ack'' 20, said ''other'' 30, said ''rx'' 40]"

definition demo_session :: main_env where
  "demo_session = (demo_main (\<lambda>n. Some (replicate n NUL)) (''ping'' @ [LF]))
     \<lparr>p_term := demo_term (play_env (demo_opts 1) prompt_inputs)\<rparr>"

lemma with_term:
  "started (P\<lparr>p_term := T\<rparr>) argv = started P argv" "opens (P\<lparr>p_term := T\<rparr>) argv = opens P argv"
  "main_opts (P\<lparr>p_term := T\<rparr>) argv = main_opts P argv"
  by (simp_all add: started_def opens_def main_opts_def std_options_def)

lemma script_opts: "script (E\<lparr>opts := x\<rparr>) t ref i j ins = script E t ref i j ins"
  by (induction ins arbitrary: i j) (simp_all add: plays_def)

lemma demo_session_ok: "started demo_session argv" "opens demo_session argv"
  "t_env (p_term demo_session) = play_env (demo_opts 1) prompt_inputs"
  "verbose_on (main_opts demo_session argv) = False"
  by (simp_all add: demo_session_def with_term demo_main_ok)
    (simp add: main_opts_def std_options_def demo_arg_result_def)

lemma demo_session_host:
  fixes w :: world
  assumes "host_ready E (jv_cjson demo_table) demo_world"
    and "t_env (p_term P) = E0" "E = E0\<lparr>opts := Some (main_opts demo_session argv)\<rparr>" "inline_args argv = []"
    and "P = demo_session\<lparr>p_term := demo_term E0\<rparr>"
  shows "session_host P argv E (jv_cjson demo_table) ''ping'' demo_world"
proof -
  have "p_input P = bytes_in (''ping'' @ LF # [])" "one_line ''ping''"
    "\<not> cJSON_IsObject (jv_cjson demo_table) (cJSON_Parse (jv_cjson demo_table) ''ping'')"
    by (simp_all add: assms(5) demo_session_def one_line_def isspace_def demo_table_def)
  moreover have "started P argv" "opens P argv" "main_opts P argv = main_opts demo_session argv"
    using demo_session_ok by (simp_all add: assms(5) with_term)
  moreover have "p_malloc P 1024 = Some (replicate 1024 NUL)" "length (p_linebuf P) = 1024"
    "length (t_buf (p_term P)) = 1024" "p_unlock_ok P" "head_ok (p_term P) ''ping''"
    by (simp_all add: assms(5) demo_session_def head_ok_def ctype_ok_def)
  ultimately show ?thesis using assms(1-4) demo_world_cells
    unfolding session_host_def by auto
qed

lemma demo_session_ready:
  fixes w :: world
  assumes "peer_ready E (jv_cjson demo_table) demo_world"
    and "t_env (p_term P) = E0" "E = E0\<lparr>opts := Some (main_opts demo_session argv)\<rparr>" "inline_args argv = []"
    and "P = demo_session\<lparr>p_term := demo_term E0\<rparr>"
  shows "session_ready P argv E (jv_cjson demo_table) ''ping'' demo_world"
  using demo_session_host [OF _ assms(2-5)] assms(1) by (simp add: session_ready_def peer_ready_def)



end
