(* ===== verification/Sockpush_IO.thy ===== *)
theory Sockpush_IO
  imports Sockpush_Read
begin

text \<open>
  The I/O thread of \<open>sockpush.c\<close> (\<open>sp_iothread\<close>), run on its own: connecting with back-off,
  assembling lines byte by byte in \<open>readbuf\<close>, publishing them, and the reconnection after a
  failed read. One input of \<open>io_step\<close> is the peer's answer to a \<open>connect\<close> and the outcome of a
  one-byte \<open>read\<close> (\<open>None\<close> when it returns less than 1); a step uses the one it asks for.
  The wait for a reader at the end of a publication belongs to \<open>Sockpush_Threads\<close>.
\<close>

section \<open>Assembling a line\<close>

text \<open>
  One byte at the cursor: whether it ends the line, the buffer, and the cursor, which goes back
  to the start of the buffer when it reaches the end.
\<close>

definition rd_byte :: "byte list \<Rightarrow> nat \<Rightarrow> byte \<Rightarrow> (bool \<times> byte list \<times> nat) res" where
  "rd_byte readbuf cursor c =
     rbind (st readbuf cursor c) (\<lambda>readbuf.
     if c = LF \<or> c = NUL
     then rbind (st readbuf cursor NUL) (\<lambda>readbuf. Inr (True, readbuf, cursor + 1))
     else (let cursor = cursor + 1 in
           Inr (False, readbuf, if cursor \<ge> length readbuf then 0 else cursor)))"

text \<open>
  The inner loop on a stream of bytes: \<open>None\<close> when the stream ends within a line (the thread
  goes on to reconnect), else the buffer, the size of the line in it, and the rest of the stream.
\<close>

primrec rd_line ::
    "byte list \<Rightarrow> byte list \<Rightarrow> nat \<Rightarrow> (byte list \<times> nat \<times> byte list) option res" where
  "rd_line [] readbuf cursor = Inr None"
| "rd_line (c # cs) readbuf cursor =
     rbind (rd_byte readbuf cursor c) (\<lambda>(fin, readbuf, cursor).
     if fin then Inr (Some (readbuf, cursor, cs)) else rd_line cs readbuf cursor)"

section \<open>The thread\<close>

datatype io_pc = IO_Connect | IO_Read

record io_thread =
  io_at :: io_pc
  io_backoff :: nat
  io_readbuf :: "byte list"
  io_cursor :: nat
  io_fd_open :: bool
  io_slept :: "nat list"        \<comment> \<open>the seconds slept, oldest first\<close>

definition max_backoff :: nat where "max_backoff = 60"

definition io_start ::
    "byte list \<Rightarrow> byte list \<Rightarrow> 'a sp_world_scheme \<Rightarrow> io_thread \<times> 'a sp_world_scheme" where
  "io_start linebuf readbuf w =
     (\<lparr>io_at = IO_Connect, io_backoff = 1, io_readbuf = readbuf, io_cursor = 0,
       io_fd_open = (0 \<le> fd_sock (item w)), io_slept = []\<rparr>,
      upd_item (sp_thread_init linebuf) w)"

text \<open>\<open>connect\<close> on a descriptor that is not open fails (\<open>EBADF\<close>), whatever the peer does.\<close>

definition io_step ::
    "bool \<times> byte option \<Rightarrow> io_thread \<times> 'a sp_world_scheme \<Rightarrow> (io_thread \<times> 'a sp_world_scheme) res" where
  "io_step inp tw =
     (let (s, w) = tw in
      case io_at s of
        IO_Connect \<Rightarrow>
          if \<not> (io_fd_open s \<and> fst inp) then
            (let s = s\<lparr>io_slept := io_slept s @ [io_backoff s]\<rparr> in
             Inr (if io_backoff s < max_backoff then s\<lparr>io_backoff := io_backoff s * 2\<rparr> else s, w))
          else Inr (s\<lparr>io_backoff := 1, io_at := IO_Read, io_cursor := 0\<rparr>, w)
      | IO_Read \<Rightarrow>
          (case snd inp of
             None \<Rightarrow> Inr (s\<lparr>io_fd_open := False, io_at := IO_Connect\<rparr>, w)
           | Some c \<Rightarrow>
               rbind (rd_byte (io_readbuf s) (io_cursor s) c) (\<lambda>(fin, readbuf, cursor).
               if fin then
                 rbind (sp_publish readbuf cursor w) (\<lambda>w.
                 Inr (s\<lparr>io_readbuf := readbuf, io_cursor := 0\<rparr>, w))
               else Inr (s\<lparr>io_readbuf := readbuf, io_cursor := cursor\<rparr>, w))))"

primrec io_run ::
    "(bool \<times> byte option) list \<Rightarrow> io_thread \<times> 'a sp_world_scheme
     \<Rightarrow> (io_thread \<times> 'a sp_world_scheme) res" where
  "io_run [] tw = Inr tw"
| "io_run (i # is) tw = rbind (io_step i tw) (io_run is)"

section \<open>The line a stream yields\<close>

text \<open>
  The reference: the line is what precedes the first newline or NUL. The buffer holds its last
  \<open>length line mod 1024\<close> bytes, the ones since the cursor last went back, and a NUL.
\<close>

abbreviation in_line :: "byte \<Rightarrow> bool" where
  "in_line c \<equiv> c \<noteq> LF \<and> c \<noteq> NUL"

definition tail_part :: "byte list \<Rightarrow> byte list" where
  "tail_part l = drop (length l div 1024 * 1024) l"

definition frame_of :: "byte list \<Rightarrow> byte list" where
  "frame_of l = tail_part l @ [NUL]"

definition spec_line :: "byte list \<Rightarrow> (byte list \<times> byte list) option" where
  "spec_line s =
     (case dropWhile in_line s of
        [] \<Rightarrow> None
      | _ # rest \<Rightarrow> Some (frame_of (takeWhile in_line s), rest))"

lemma length_tail_part: "length (tail_part l) = length l mod 1024"
  by (simp add: tail_part_def minus_div_mult_eq_mod)

lemma tail_part_snoc:
  "tail_part (l @ [c]) = (if length l mod 1024 = 1023 then [] else tail_part l @ [c])"
proof (cases "length l mod 1024 = 1023")
  case True
  then have "Suc (length l) mod 1024 = 0" by (simp add: mod_Suc)
  then have "length (tail_part (l @ [c])) = 0" by (simp add: length_tail_part)
  with True show ?thesis by simp
next
  case False
  then have "Suc (length l) div 1024 = length l div 1024" by (simp add: div_Suc mod_Suc)
  moreover have "length l div 1024 * 1024 \<le> length l" by simp
  ultimately show ?thesis using False by (simp add: tail_part_def)
qed

lemma tail_part_short: "length l < 1024 \<Longrightarrow> tail_part l = l"
  by (simp add: tail_part_def)

lemma set_tail_part: "set (tail_part l) \<subseteq> set l"
  by (simp add: tail_part_def set_drop_subset)

lemma frame_ok_frame_of:
  "NUL \<notin> set l \<Longrightarrow> LF \<notin> set l \<Longrightarrow> frame_ok (frame_of l)"
  using set_tail_part [of l] by (auto simp: frame_of_def frame_ok_snoc length_tail_part)

lemma frame_ok_takeWhile: "frame_ok (frame_of (takeWhile in_line s))"
  by (rule frame_ok_frame_of) (auto dest: set_takeWhileD)

text \<open>The buffer while a line is read: \<open>q\<close> is what has been read of it.\<close>

definition partial_line :: "byte list \<Rightarrow> byte list \<Rightarrow> nat \<Rightarrow> bool" where
  "partial_line q readbuf cursor \<longleftrightarrow>
     length readbuf = 1024 \<and> cursor = length q mod 1024 \<and> take cursor readbuf = tail_part q"

lemma rd_byte_end:
  assumes "partial_line q readbuf cursor" and "\<not> in_line c"
  shows "\<exists>readbuf'. rd_byte readbuf cursor c = Inr (True, readbuf', cursor + 1)
    \<and> length readbuf' = 1024 \<and> take (cursor + 1) readbuf' = frame_of q"
proof -
  have "cursor < 1024" "length readbuf = 1024" using assms by (auto simp: partial_line_def)
  then show ?thesis using assms
    by (auto simp: rd_byte_def partial_line_def frame_of_def take_Suc_conv_app_nth)
qed

lemma rd_byte_more:
  assumes p: "partial_line q readbuf cursor" and "in_line c"
  shows "\<exists>readbuf' cursor'. rd_byte readbuf cursor c = Inr (False, readbuf', cursor')
    \<and> partial_line (q @ [c]) readbuf' cursor'"
proof -
  have len: "length readbuf = 1024" and cur: "cursor = length q mod 1024" "cursor < 1024"
    and tk: "take cursor readbuf = tail_part q"
    using p by (auto simp: partial_line_def)
  show ?thesis
  proof (cases "cursor = 1023")
    case True
    then have "Suc (length q) mod 1024 = 0" using cur by (simp add: mod_Suc)
    with True len cur assms(2) show ?thesis
      by (auto simp: rd_byte_def partial_line_def tail_part_snoc)
  next
    case False
    then have "Suc (length q) mod 1024 = Suc cursor" using cur by (simp add: mod_Suc)
    with False len cur tk assms(2) show ?thesis
      by (auto simp: rd_byte_def partial_line_def tail_part_snoc take_Suc_conv_app_nth)
  qed
qed

section \<open>Properties of the assembly\<close>

lemma rd_line_general:
  "partial_line q readbuf cursor \<Longrightarrow>
     \<exists>readbuf'. rd_line s readbuf cursor =
       Inr (case dropWhile in_line s of [] \<Rightarrow> None
            | _ # rest \<Rightarrow> Some (readbuf', length (frame_of (q @ takeWhile in_line s)), rest))
     \<and> length readbuf' = 1024
     \<and> (dropWhile in_line s = [] \<or> take (length (frame_of (q @ takeWhile in_line s))) readbuf'
           = frame_of (q @ takeWhile in_line s))"
proof (induction s arbitrary: q readbuf cursor)
  case Nil
  then show ?case by (auto simp: partial_line_def)
next
  case (Cons c cs)
  show ?case
  proof (cases "in_line c")
    case True
    then obtain b k where b: "rd_byte readbuf cursor c = Inr (False, b, k)"
      and "partial_line (q @ [c]) b k"
      using rd_byte_more [OF Cons.prems True] by blast
    moreover have "(q @ [c]) @ takeWhile in_line cs = q @ takeWhile in_line (c # cs)"
      and "dropWhile in_line cs = dropWhile in_line (c # cs)"
      using True by simp_all
    ultimately show ?thesis using Cons.IH [of "q @ [c]" b k]
      by (simp only: rd_line.simps rbind_Inr prod.case if_False)
  next
    case False
    then obtain b where b: "rd_byte readbuf cursor c = Inr (True, b, cursor + 1)"
      "length b = 1024" "take (cursor + 1) b = frame_of q"
      using rd_byte_end [OF Cons.prems False] by blast
    moreover have "length (frame_of q) = cursor + 1"
      using Cons.prems by (simp add: frame_of_def length_tail_part partial_line_def)
    ultimately show ?thesis using False by (auto intro: exI [of _ b])
  qed
qed

text \<open>C25: the read loop computes the reference for every stream: it finds the first line
  terminator, leaves the rest of the stream, and delivers the line without loss when it has
  fewer than 1024 bytes; of a longer one only the bytes since the buffer last filled up. It
  reports that the stream ended exactly when there is no terminator, and it never writes
  outside its buffer.\<close>

theorem rd_line_spec:
  assumes "length readbuf = 1024"
  shows "rbind (rd_line s readbuf 0) (\<lambda>r. Inr (map_option (\<lambda>(b, n, rest). (take n b, rest)) r))
     = Inr (spec_line s)"
proof -
  have "partial_line [] readbuf 0" using assms by (simp add: partial_line_def tail_part_def)
  from rd_line_general [OF this, of s] show ?thesis
    by (auto simp: spec_line_def split: list.splits)
qed

theorem rd_line_spec_witness:
  "rbind (rd_line (''ack'' @ [LF] @ ''rx'') (replicate 1024 NUL) 0)
     (\<lambda>r. Inr (map_option (\<lambda>(b, n, rest). (take n b, rest)) r)) = Inr (Some (''ack'' @ [NUL], ''rx''))"
  by (subst rd_line_spec) (simp_all add: spec_line_def frame_of_def tail_part_def)

text \<open>A line of 1024 bytes or more is cut silently: what readers get is shorter than the
  line, and it is empty when the length is a multiple of 1024.\<close>

theorem long_line_cut:
  assumes "NUL \<notin> set l" and "LF \<notin> set l" and "1024 \<le> length l"
  shows "spec_line (l @ LF # rest) = Some (frame_of l, rest)
    \<and> length (frame_of l) = Suc (length l mod 1024) \<and> length (frame_of l) \<le> length l
    \<and> (length l mod 1024 = 0 \<longleftrightarrow> frame_of l = [NUL])"
proof -
  have "\<forall>c \<in> set l. in_line c" using assms by auto
  then have "takeWhile in_line (l @ LF # rest) = l" "dropWhile in_line (l @ LF # rest) = LF # rest"
    by (auto simp: takeWhile_append2 dropWhile_append2)
  moreover have "length (tail_part l) = length l mod 1024" by (rule length_tail_part)
  moreover have "length l mod 1024 < 1024" by simp
  ultimately show ?thesis using assms(3)
    by (auto simp: spec_line_def frame_of_def)
qed

theorem long_line_cut_witness:
  "spec_line (replicate 1024 (CHR ''x'') @ LF # ''rest'') = Some ([NUL], ''rest'')"
  using long_line_cut [of "replicate 1024 (CHR ''x'')" "''rest''"]
  by simp

section \<open>Properties of the thread\<close>

lemma sp_publish_take:
  "n \<le> length buf \<Longrightarrow> sp_publish buf n w = sp_publish (take n buf) n w"
  by (cases "read_buf (item w)") (simp_all add: sp_publish_def memcpy_def Let_def)

lemma sp_publish_frame:
  "wf_world w \<Longrightarrow> frame_ok f \<Longrightarrow> take n buf = f \<Longrightarrow> n = length f \<Longrightarrow> n \<le> length buf \<Longrightarrow>
     sp_publish buf n w = Inr (upd_item (publish_item f) w)"
  using sp_publish_take [of n buf w] sp_publish_eq [of w f] by simp

definition io_inv :: "io_thread \<Rightarrow> bool" where
  "io_inv s \<longleftrightarrow> length (io_readbuf s) = 1024
     \<and> (io_at s = IO_Connect \<or> (\<exists>q. list_all in_line q \<and> partial_line q (io_readbuf s) (io_cursor s)))
     \<and> (\<exists>k \<le> 6. io_backoff s = 2 ^ k) \<and> list_all (\<lambda>d. d \<le> 64) (io_slept s)"

lemma frame_of_in_line: "list_all in_line q \<Longrightarrow> frame_ok (frame_of q)"
  by (rule frame_ok_frame_of) (auto simp: list_all_iff)

lemma pow_le_64: "k \<le> 6 \<Longrightarrow> (2::nat) ^ k \<le> 64"
  using power_increasing [of k 6 "2::nat"] by simp

lemma backoff_step: "k \<le> 6 \<Longrightarrow> (2::nat) ^ k < 60 \<Longrightarrow> \<exists>j \<le> 6. (2::nat) ^ k * 2 = 2 ^ j"
proof -
  assume "k \<le> 6" and "(2::nat) ^ k < 60"
  then have "k \<noteq> 6" by auto
  with \<open>k \<le> 6\<close> show ?thesis by (intro exI [of _ "Suc k"]) simp
qed

lemma partial_line_Nil: "length b = 1024 \<Longrightarrow> partial_line [] b 0"
  by (simp add: partial_line_def tail_part_def)

lemma io_step_inv:
  fixes w :: "'a sp_world_scheme"
  assumes s: "io_inv s" and w: "wf_world w"
  shows "\<exists>s' w'. io_step i (s, w) = Inr (s', w') \<and> io_inv s' \<and> wf_world w'"
proof (cases "io_at s")
  case IO_Connect
  obtain k where k: "k \<le> 6" "io_backoff s = 2 ^ k" using s by (auto simp: io_inv_def)
  have one: "\<exists>j \<le> 6. Suc 0 = 2 ^ j" by (rule exI [of _ 0]) simp
  show ?thesis
    using IO_Connect s w k pow_le_64 [OF k(1)] backoff_step [OF k(1)] partial_line_Nil [of "io_readbuf s"]
    by (cases "(2::nat) ^ k < 60")
       (auto simp: io_step_def io_inv_def max_backoff_def one Let_def intro: exI [of _ "[]"])
next
  case IO_Read
  then obtain q where q: "list_all in_line q" "partial_line q (io_readbuf s) (io_cursor s)"
    using s by (auto simp: io_inv_def)
  show ?thesis
  proof (cases "snd i")
    case None
    with IO_Read s w show ?thesis by (auto simp: io_step_def io_inv_def)
  next
    case (Some c)
    show ?thesis
    proof (cases "in_line c")
      case True
      from rd_byte_more [OF q(2) True] obtain b k
        where b: "rd_byte (io_readbuf s) (io_cursor s) c = Inr (False, b, k)"
          and p: "partial_line (q @ [c]) b k" by blast
      then have "length b = 1024" by (simp add: partial_line_def)
      moreover have "list_all in_line (q @ [c])" using q(1) True by simp
      ultimately show ?thesis using IO_Read Some b p s w
        by (auto simp: io_step_def io_inv_def intro!: exI [of _ "q @ [c]"])
    next
      case False
      from rd_byte_end [OF q(2) False] obtain b
        where b: "rd_byte (io_readbuf s) (io_cursor s) c = Inr (True, b, io_cursor s + 1)"
          "length b = 1024" "take (io_cursor s + 1) b = frame_of q" by blast
      have f: "frame_ok (frame_of q)" using q(1) by (rule frame_of_in_line)
      have "io_cursor s + 1 = length (frame_of q)"
        using q(2) by (simp add: frame_of_def length_tail_part partial_line_def)
      from sp_publish_frame [OF w f b(3) this] b(2)
      have "sp_publish b (io_cursor s + 1) w = Inr (upd_item (publish_item (frame_of q)) w)"
        using frame_okD [OF f] \<open>io_cursor s + 1 = length (frame_of q)\<close> by simp
      with IO_Read Some b s w wf_world_publish [OF w f] partial_line_Nil [OF b(2)] show ?thesis
        by (auto simp: io_step_def io_inv_def intro: exI [of _ "[]"])
    qed
  qed
qed

lemma io_start_inv:
  "length rb = 1024 \<Longrightarrow> io_inv (fst (io_start lb rb w))"
  by (auto simp: io_start_def io_inv_def intro: exI [of _ 0])

text \<open>C19: the I/O thread is safe for every input: whatever the peer sends and however the
  connection behaves, no step runs into undefined behaviour, the cursor stays within the line
  buffer, the shared buffer always holds a whole terminated line of at most 1024 bytes, and no
  pause between connection attempts exceeds 64 seconds.\<close>

theorem io_run_safe:
  fixes w :: "'a sp_world_scheme"
  assumes "io_inv s" and "wf_world w"
  shows "\<exists>s' w'. io_run is (s, w) = Inr (s', w') \<and> io_inv s' \<and> wf_world w'"
  using assms
proof (induction "is" arbitrary: s w)
  case Nil
  then show ?case by simp
next
  case (Cons i "is")
  from io_step_inv [OF Cons.prems, of i] obtain s' and w' :: "'a sp_world_scheme"
    where "io_step i (s, w) = Inr (s', w')" "io_inv s'" "wf_world w'" by blast
  with Cons.IH [of s' w'] show ?case by simp
qed

lemma io_start_world: "snd (io_start (replicate 1024 NUL) rb sp_start) = sp_start"
  by (simp add: io_start_def sp_start_def sp_thread_init_def)

theorem io_run_safe_witness:
  "\<exists>s' w'. io_run [(False, None), (True, None), (True, Some (CHR ''x'')), (True, None)]
      (io_start (replicate 1024 NUL) (replicate 1024 NUL) sp_start) = Inr (s', w')
    \<and> io_inv s' \<and> wf_world w'"
proof -
  have "io_start (replicate 1024 NUL) (replicate 1024 NUL) sp_start
      = (fst (io_start (replicate 1024 NUL) (replicate 1024 NUL) sp_start), sp_start)"
    by (metis io_start_world prod.collapse)
  moreover have "wf_world sp_start" using wf_start by (simp add: wf_idle_def)
  ultimately show ?thesis
    using io_run_safe [OF io_start_inv, of "replicate 1024 NUL" sp_start]
    by (metis length_replicate)
qed

definition feed :: "byte list \<Rightarrow> (bool \<times> byte option) list" where
  "feed bs = map (\<lambda>c. (True, Some c)) bs"

lemma feed_simps [simp]: "feed [] = []" "feed (c # cs) = (True, Some c) # feed cs"
  "feed (a @ b) = feed a @ feed b"
  by (simp_all add: feed_def)

lemma io_run_append:
  "io_run (a @ b) tw = rbind (io_run a tw) (io_run b)"
  by (induction a arbitrary: tw) (simp_all add: rbind_def split: sum.splits)

definition io_reading :: "byte list \<Rightarrow> io_thread \<Rightarrow> bool" where
  "io_reading q s \<longleftrightarrow> io_at s = IO_Read \<and> partial_line q (io_readbuf s) (io_cursor s)"

lemma io_run_in_line:
  "io_reading q s \<Longrightarrow> list_all in_line l \<Longrightarrow>
     \<exists>s'. io_run (feed l) (s, w) = Inr (s', w) \<and> io_reading (q @ l) s'"
proof (induction l arbitrary: q s)
  case Nil
  then show ?case by simp
next
  case (Cons c l)
  then have c: "in_line c" and r: "io_at s = IO_Read" "partial_line q (io_readbuf s) (io_cursor s)"
    by (auto simp: io_reading_def)
  from rd_byte_more [OF r(2) c] obtain b k
    where b: "rd_byte (io_readbuf s) (io_cursor s) c = Inr (False, b, k)"
      and p: "partial_line (q @ [c]) b k" by blast
  let ?s = "s\<lparr>io_readbuf := b, io_cursor := k\<rparr>"
  have "io_step (True, Some c) (s, w) = Inr (?s, w)" using r b by (simp add: io_step_def)
  moreover have "io_reading (q @ [c]) ?s" using r p by (simp add: io_reading_def)
  ultimately show ?case using Cons.IH [of "q @ [c]" ?s] Cons.prems by simp
qed

lemma io_run_line:
  assumes "io_reading [] s" and l: "list_all in_line l" and "\<not> in_line t" and w: "wf_world w"
  shows "\<exists>s'. io_run (feed (l @ [t])) (s, w) = Inr (s', upd_item (publish_item (frame_of l)) w)
    \<and> io_reading [] s'"
proof -
  from io_run_in_line [OF assms(1) l, of w] obtain s1
    where s1: "io_run (feed l) (s, w) = Inr (s1, w)" and r: "io_at s1 = IO_Read"
      "partial_line l (io_readbuf s1) (io_cursor s1)"
    by (auto simp: io_reading_def)
  from rd_byte_end [OF r(2) assms(3)] obtain b
    where b: "rd_byte (io_readbuf s1) (io_cursor s1) t = Inr (True, b, io_cursor s1 + 1)"
      "length b = 1024" "take (io_cursor s1 + 1) b = frame_of l" by blast
  have f: "frame_ok (frame_of l)" using l by (rule frame_of_in_line)
  have n: "io_cursor s1 + 1 = length (frame_of l)"
    using r(2) by (simp add: frame_of_def length_tail_part partial_line_def)
  have "sp_publish b (io_cursor s1 + 1) w = Inr (upd_item (publish_item (frame_of l)) w)"
    using sp_publish_frame [OF w f b(3) n] frame_okD [OF f] n b(2) by simp
  with s1 r b(1,2) partial_line_Nil [OF b(2)] show ?thesis
    by (simp add: io_run_append io_step_def io_reading_def)
qed

text \<open>The I/O thread publishes exactly the lines of the stream, in order: after it has been
  fed any number of newline-terminated lines, the shared state is the one reached by publishing
  their frames one after the other, and the thread is at the start of a line again.\<close>

theorem io_run_lines:
  fixes w :: "'a sp_world_scheme"
  assumes "io_reading [] s" and "wf_world w" and "list_all (list_all in_line) ls"
  shows "\<exists>s'. io_run (feed (concat (map (\<lambda>l. l @ [LF]) ls))) (s, w)
      = Inr (s', upd_item (fold publish_item (map frame_of ls)) w) \<and> io_reading [] s'"
  using assms
proof (induction ls arbitrary: s w)
  case Nil
  then show ?case by simp
next
  case (Cons l ls)
  then have l: "list_all in_line l" by simp
  from io_run_line [OF Cons.prems(1) l _ Cons.prems(2), of LF] obtain s1
    where s1: "io_run (feed (l @ [LF])) (s, w) = Inr (s1, upd_item (publish_item (frame_of l)) w)"
      and r1: "io_reading [] s1" by blast
  have w1: "wf_world (upd_item (publish_item (frame_of l)) w)"
    using Cons.prems(2) frame_of_in_line [OF l] by (rule wf_world_publish)
  have "feed (concat (map (\<lambda>l. l @ [LF]) (l # ls)))
      = feed (l @ [LF]) @ feed (concat (map (\<lambda>l. l @ [LF]) ls))" by simp
  with Cons.IH [OF r1 w1] Cons.prems(3) s1 show ?case
    by (simp add: io_run_append del: feed_simps)
qed

definition io_demo :: io_thread where
  "io_demo = \<lparr>io_at = IO_Read, io_backoff = 1, io_readbuf = replicate 1024 NUL, io_cursor = 0,
     io_fd_open = True, io_slept = []\<rparr>"

theorem io_run_lines_witness:
  "\<exists>s'. io_run (feed (concat (map (\<lambda>l. l @ [LF]) [''ack'', ''rx'']))) (io_demo, sp_start)
      = Inr (s', upd_item (fold publish_item [''ack'' @ [NUL], ''rx'' @ [NUL]]) sp_start)"
proof -
  have "io_reading [] io_demo" by (simp add: io_reading_def io_demo_def partial_line_Nil)
  moreover have "wf_world sp_start" using wf_start by (simp add: wf_idle_def)
  moreover have "list_all (list_all in_line) [''ack'', ''rx'']" by simp
  ultimately have "\<exists>s'. io_run (feed (concat (map (\<lambda>l. l @ [LF]) [''ack'', ''rx'']))) (io_demo, sp_start)
      = Inr (s', upd_item (fold publish_item (map frame_of [''ack'', ''rx''])) sp_start) \<and> io_reading [] s'"
    by (rule io_run_lines)
  moreover have "map frame_of [''ack'', ''rx''] = [''ack'' @ [NUL], ''rx'' @ [NUL]]"
    by (simp add: frame_of_def tail_part_short)
  ultimately show ?thesis by metis
qed

text \<open>There is no reconnection: once a read has failed, the descriptor is closed and
  \<open>connect\<close> is tried on the closed descriptor for ever; whatever the peer does afterwards, the
  thread stays in that loop and publishes no line any more.\<close>

theorem io_no_reconnect:
  assumes "io_at s = IO_Read"
  shows "\<exists>s'. io_run ((x, None) # is) (s, w) = Inr (s', w) \<and> io_at s' = IO_Connect"
proof -
  have stuck: "io_at s = IO_Connect \<Longrightarrow> \<not> io_fd_open s \<Longrightarrow>
      \<exists>s'. io_run is (s, w) = Inr (s', w) \<and> io_at s' = IO_Connect \<and> \<not> io_fd_open s'" for s
  proof (induction "is" arbitrary: s)
    case Nil
    then show ?case by simp
  next
    case (Cons i "is")
    obtain s1 where "io_step i (s, w) = Inr (s1, w)" "io_at s1 = IO_Connect" "\<not> io_fd_open s1"
      using Cons.prems by (cases "io_backoff s < max_backoff") (auto simp: io_step_def Let_def)
    with Cons.IH [of s1] show ?case by simp
  qed
  show ?thesis
    using assms stuck [of "s\<lparr>io_fd_open := False, io_at := IO_Connect\<rparr>"]
    by (auto simp: io_step_def)
qed

theorem io_no_reconnect_witness:
  "\<exists>s'. io_run ((True, None) # (True, None) # feed (''ack'' @ [LF])) (io_demo, sp_start) = Inr (s', sp_start)
     \<and> io_at s' = IO_Connect"
  using io_no_reconnect [of io_demo True "(True, None) # feed (''ack'' @ [LF])" sp_start]
  by (simp add: io_demo_def)

text \<open>The back-off doubles from one second up to 64 seconds, which is beyond
  \<open>max_backoff\<close>: after \<open>n\<close> failed connection attempts the thread has slept
  \<open>1, 2, 4, \<dots>, 64, 64, \<dots>\<close> seconds.\<close>

theorem io_backoff_sequence:
  assumes "list_all (\<lambda>i. \<not> fst i) is"
  shows "\<exists>s'. io_run is (io_start lb rb w) = Inr (s', snd (io_start lb rb w))
    \<and> io_slept s' = map (\<lambda>i. min (2 ^ i) 64) [0..<length is]"
proof -
  have "\<exists>s'. io_run is (io_start lb rb w) = Inr (s', snd (io_start lb rb w))
      \<and> io_slept s' = map (\<lambda>i. min (2 ^ i) 64) [0..<length is]
      \<and> io_at s' = IO_Connect \<and> io_backoff s' = min (2 ^ length is) 64"
    using assms
  proof (induction "is" rule: rev_induct)
    case Nil
    then show ?case by (simp add: io_start_def)
  next
    case (snoc i "is")
    then obtain s' where s': "io_run is (io_start lb rb w) = Inr (s', snd (io_start lb rb w))"
      "io_slept s' = map (\<lambda>i. min (2 ^ i) 64) [0..<length is]"
      "io_at s' = IO_Connect" "io_backoff s' = min (2 ^ length is) 64"
      by auto
    have "min (2 ^ length is) 64 < (60::nat) \<Longrightarrow> 2 ^ length is * 2 \<le> (64::nat)"
      by (cases "length is \<le> 5")
         (use power_increasing [of "length is" 5 "2::nat"] power_increasing [of 6 "length is" "2::nat"]
           in auto)
    moreover have "\<not> min (2 ^ length is) 64 < (60::nat) \<Longrightarrow> (64::nat) \<le> 2 ^ length is"
      by (cases "length is \<le> 5")
         (use power_increasing [of "length is" 5 "2::nat"] power_increasing [of 6 "length is" "2::nat"]
           in auto)
    ultimately show ?case using s' snoc.prems
      by (cases "min (2 ^ length is) 64 < (60::nat)")
         (auto simp: io_run_append io_step_def max_backoff_def Let_def)
  qed
  then show ?thesis by blast
qed

theorem io_backoff_sequence_witness:
  "\<exists>s'. io_run (replicate 8 (False, None)) (io_start (replicate 1024 NUL) (replicate 1024 NUL) sp_start)
      = Inr (s', sp_start) \<and> io_slept s' = [1, 2, 4, 8, 16, 32, 64, 64]"
proof -
  have "map (\<lambda>i. min (2 ^ i) 64) [0..<8] = [1, 2, 4, 8, 16, 32, 64, 64 :: nat]"
    by (simp add: upt_rec)
  moreover have "list_all (\<lambda>i. \<not> fst i) (replicate 8 (False, None :: byte option))"
    by (simp add: list_all_iff)
  ultimately show ?thesis
    using io_backoff_sequence [of "replicate 8 (False, None)" "replicate 1024 NUL" "replicate 1024 NUL" sp_start]
    by (simp add: io_start_world)
qed

end
