(* ===== verification/Sockpush_Trace.thy ===== *)
theory Sockpush_Trace
  imports Sockpush_IO "HOL-Library.Sublist"
begin

text \<open>
  What the I/O thread of \<open>sockpush.c\<close> publishes, observed at the shared buffer, as a function of
  everything its \<open>connect\<close> and \<open>read\<close> calls return: the bytes received up to the first failed read,
  cut at each newline or NUL, whatever the pieces in which they arrive.
\<close>

section \<open>The observable behaviour of the thread\<close>

text \<open>A run of the thread with the lines it puts on the shared buffer: one whenever the read id changes.\<close>

primrec io_trace ::
    "(bool \<times> byte option) list \<Rightarrow> io_thread \<times> 'a sp_world_scheme
     \<Rightarrow> (byte list list \<times> io_thread \<times> 'a sp_world_scheme) res" where
  "io_trace [] tw = Inr ([], tw)"
| "io_trace (i # is) tw =
     rbind (io_step i tw) (\<lambda>tw'.
     rbind (io_trace is tw') (\<lambda>(ls, tw'').
     Inr ((if read_id (item (snd tw')) = read_id (item (snd tw)) then []
           else [current_line (item (snd tw'))]) @ ls, tw'')))"

lemma io_trace_run: "io_run is tw = rbind (io_trace is tw) (\<lambda>x. Inr (snd x))"
proof (induction "is" arbitrary: tw)
  case (Cons i "is")
  then show ?case by (cases "io_step i tw") (auto simp: rbind_def split: sum.splits)
qed simp

text \<open>What \<open>read\<close> returns, one byte at a time, between the first accepted connection and the first
  failure.\<close>

definition received :: "(bool \<times> byte option) list \<Rightarrow> byte list" where
  "received is =
     map (\<lambda>i. the (snd i)) (takeWhile (\<lambda>i. snd i \<noteq> None) (drop 1 (dropWhile (\<lambda>i. \<not> fst i) is)))"

text \<open>The lines of a stream, when \<open>q\<close> has been read of the first one, and what follows the last.\<close>

fun cut_lines :: "byte list \<Rightarrow> byte list \<Rightarrow> byte list list \<times> byte list" where
  "cut_lines q [] = ([], q)"
| "cut_lines q (c # cs) =
     (if in_line c then cut_lines (q @ [c]) cs
      else case cut_lines [] cs of (ls, r) \<Rightarrow> (q # ls, r))"

lemma cut_lines_in_line:
  "list_all in_line q \<Longrightarrow> list_all (list_all in_line) (fst (cut_lines q bs))"
  by (induction q bs rule: cut_lines.induct) (auto split: prod.splits)

lemma cut_lines_more:
  "list_all in_line l \<Longrightarrow> cut_lines q (l @ bs) = cut_lines (q @ l) bs"
  by (induction l arbitrary: q) auto

text \<open>Only whole lines are cut, and the stream is their concatenation but for the terminators.\<close>

lemma cut_lines_terminated:
  "list_all (list_all in_line) ls \<Longrightarrow> cut_lines [] (concat (map (\<lambda>l. l @ [LF]) ls) @ r) =
    (ls @ fst (cut_lines [] r), snd (cut_lines [] r))"
  by (induction ls) (auto simp: cut_lines_more split: prod.splits)

lemma cut_lines_append:
  "cut_lines q (a @ b) =
     (fst (cut_lines q a) @ fst (cut_lines (snd (cut_lines q a)) b), snd (cut_lines (snd (cut_lines q a)) b))"
  by (induction q a rule: cut_lines.induct) (auto split: prod.splits)

section \<open>Bytes in pieces\<close>

lemma io_step_in_line:
  assumes "io_reading q s" and "in_line c"
  shows "\<exists>s'. io_step (x, Some c) (s, w) = Inr (s', w) \<and> io_reading (q @ [c]) s'"
  using assms rd_byte_more [of q "io_readbuf s" "io_cursor s" c]
  by (auto simp: io_reading_def io_step_def)

lemma io_step_line_end:
  assumes r: "io_reading q s" and q: "list_all in_line q" and c: "\<not> in_line c" and w: "wf_world w"
  shows "\<exists>s'. io_step (x, Some c) (s, w) = Inr (s', upd_item (publish_item (frame_of q)) w) \<and> io_reading [] s'"
proof -
  from r rd_byte_end [OF _ c, of q "io_readbuf s" "io_cursor s"] obtain b
    where b: "rd_byte (io_readbuf s) (io_cursor s) c = Inr (True, b, io_cursor s + 1)"
      "length b = 1024" "take (io_cursor s + 1) b = frame_of q" by (auto simp: io_reading_def)
  have f: "frame_ok (frame_of q)" using q by (rule frame_of_in_line)
  have n: "io_cursor s + 1 = length (frame_of q)"
    using r by (simp add: frame_of_def length_tail_part partial_line_def io_reading_def)
  have "sp_publish b (io_cursor s + 1) w = Inr (upd_item (publish_item (frame_of q)) w)"
    using sp_publish_frame [OF w f b(3) n] frame_okD [OF f] n b(2) by simp
  with r b(1,2) partial_line_Nil [OF b(2)] show ?thesis
    by (simp add: io_reading_def io_step_def)
qed

lemma io_trace_bytes:
  fixes w :: "'a sp_world_scheme"
  assumes "io_reading q s" and "list_all in_line q" and "wf_world w" and "list_all (\<lambda>i. snd i \<noteq> None) is"
  shows "\<exists>s'. io_trace is (s, w) = Inr (map frame_of (fst (cut_lines q (map (\<lambda>i. the (snd i)) is))), s',
      upd_item (fold publish_item (map frame_of (fst (cut_lines q (map (\<lambda>i. the (snd i)) is))))) w)
    \<and> io_reading (snd (cut_lines q (map (\<lambda>i. the (snd i)) is))) s'"
  using assms
proof (induction "is" arbitrary: q s w)
  case Nil
  then show ?case by simp
next
  case (Cons i "is")
  then obtain x c where i: "i = (x, Some c)" by (cases i) auto
  show ?case
  proof (cases "in_line c")
    case True
    from io_step_in_line [OF Cons.prems(1) this, of x w] obtain s1
      where "io_step (x, Some c) (s, w) = Inr (s1, w)" "io_reading (q @ [c]) s1" by blast
    with Cons.IH [of "q @ [c]" s1 w] Cons.prems True i show ?thesis by auto
  next
    case False
    let ?w = "upd_item (publish_item (frame_of q)) w"
    from io_step_line_end [OF Cons.prems(1,2) False Cons.prems(3), of x] obtain s1
      where "io_step (x, Some c) (s, w) = Inr (s1, ?w)" "io_reading [] s1" by blast
    moreover have "wf_world ?w"
      using Cons.prems(3) frame_of_in_line [OF Cons.prems(2)] by (rule wf_world_publish)
    ultimately show ?thesis using Cons.IH [of "[]" s1 ?w] Cons.prems(4) False i
      by (auto split: prod.splits)
  qed
qed

section \<open>Connecting, and after the first failure\<close>

lemma io_trace_closed:
  "io_at s = IO_Connect \<Longrightarrow> \<not> io_fd_open s \<Longrightarrow> \<exists>s'. io_trace is (s, w) = Inr ([], s', w)"
proof (induction "is" arbitrary: s)
  case Nil
  then show ?case by simp
next
  case (Cons i "is")
  obtain s1 where "io_step i (s, w) = Inr (s1, w)" "io_at s1 = IO_Connect" "\<not> io_fd_open s1"
    using Cons.prems by (cases "io_backoff s < max_backoff") (auto simp: io_step_def Let_def)
  with Cons.IH [of s1] show ?case by auto
qed

lemma io_trace_failed:
  assumes "io_at s = IO_Read" and "is = [] \<or> snd (hd is) = None"
  shows "\<exists>s'. io_trace is (s, w) = Inr ([], s', w)"
  using assms io_trace_closed [of "s\<lparr>io_fd_open := False, io_at := IO_Connect\<rparr>" "tl is" w]
  by (cases "is") (auto simp: io_step_def)

lemma io_trace_append:
  "io_trace (a @ b) tw = rbind (io_trace a tw) (\<lambda>(ls, tw'). rbind (io_trace b tw') (\<lambda>(ls', x). Inr (ls @ ls', x)))"
  by (induction a arbitrary: tw) (auto simp: rbind_def split: sum.splits prod.splits)

lemma io_trace_reading:
  fixes w :: "'a sp_world_scheme" and "is" :: "(bool \<times> byte option) list"
  assumes r: "io_reading [] s" and w: "wf_world w"
  defines "fs \<equiv> map frame_of (fst (cut_lines [] (map (\<lambda>i. the (snd i)) (takeWhile (\<lambda>i. snd i \<noteq> None) is))))"
  shows "\<exists>s'. io_trace is (s, w) = Inr (fs, s', upd_item (fold publish_item fs) w)"
proof -
  let ?a = "takeWhile (\<lambda>i. snd i \<noteq> None) is" and ?b = "dropWhile (\<lambda>i. snd i \<noteq> None) is"
  have "list_all (\<lambda>i. snd i \<noteq> None) ?a" by (auto simp: list_all_iff dest: set_takeWhileD)
  from io_trace_bytes [OF r _ w this] obtain s1 where
    a: "io_trace ?a (s, w) = Inr (fs, s1, upd_item (fold publish_item fs) w)" and at: "io_at s1 = IO_Read"
    by (auto simp: fs_def io_reading_def)
  let ?w = "upd_item (fold publish_item fs) w"
  have "?b = [] \<or> snd (hd ?b) = None" using hd_dropWhile [of "\<lambda>i. snd i \<noteq> None" "is"] by blast
  then have b: "\<exists>s'. io_trace ?b (s1, ?w) = Inr ([], s', ?w)" by (rule io_trace_failed [OF at])
  have "io_trace is (s, w) = rbind (io_trace ?a (s, w)) (\<lambda>(ls, tw'). rbind (io_trace ?b tw') (\<lambda>(ls', x). Inr (ls @ ls', x)))"
    using io_trace_append [of ?a ?b "(s, w)"] by simp
  also have "\<dots> = rbind (io_trace ?b (s1, ?w)) (\<lambda>(ls', x). Inr (fs @ ls', x))" by (simp only: a rbind_Inr prod.case)
  finally show ?thesis using b by auto
qed

lemma io_trace_connecting:
  fixes w :: "'a sp_world_scheme" and "is" :: "(bool \<times> byte option) list"
  assumes "io_at s = IO_Connect" and "io_fd_open s" and "length (io_readbuf s) = 1024" and w: "wf_world w"
  defines "fs \<equiv> map frame_of (fst (cut_lines [] (received is)))"
  shows "\<exists>s'. io_trace is (s, w) = Inr (fs, s', upd_item (fold publish_item fs) w)"
  using assms(1-3) unfolding fs_def
proof (induction "is" arbitrary: s)
  case Nil
  then show ?case by (simp add: received_def)
next
  case (Cons i "is")
  show ?case
  proof (cases "fst i")
    case True
    let ?s = "s\<lparr>io_backoff := 1, io_at := IO_Read, io_cursor := 0\<rparr>"
    have "io_reading [] ?s" using Cons.prems by (simp add: io_reading_def partial_line_Nil)
    from io_trace_reading [OF this w, of "is"] show ?thesis
      using True Cons.prems by (auto simp: io_step_def received_def)
  next
    case False
    then obtain s1 where "io_step i (s, w) = Inr (s1, w)" "io_at s1 = IO_Connect" "io_fd_open s1"
      "length (io_readbuf s1) = 1024"
      using Cons.prems by (cases "io_backoff s < max_backoff") (auto simp: io_step_def Let_def)
    moreover have "received (i # is) = received is" using False by (simp add: received_def)
    ultimately show ?thesis using Cons.IH [of s1] by auto
  qed
qed

text \<open>C13: the whole input and output behaviour of the I/O thread: whatever \<open>connect\<close> and \<open>read\<close>
  return, the lines that appear on the shared buffer are those of the bytes received between the
  first accepted connection and the first failed read, in order, each once, cut at every newline or
  NUL byte and ended with a NUL; a line that is not complete is not published, nothing is published
  after the failure, and nothing at all when the socket could not be created.\<close>

theorem io_trace_spec:
  fixes w :: "'a sp_world_scheme" and "is" :: "(bool \<times> byte option) list"
  assumes "length rb = 1024" and w: "wf_world (snd (io_start lb rb w))"
  defines "fs \<equiv> map frame_of (fst (cut_lines [] (if 0 \<le> fd_sock (item w) then received is else [])))"
  shows "\<exists>s'. io_trace is (io_start lb rb w)
    = Inr (fs, s', upd_item (fold publish_item fs) (snd (io_start lb rb w)))"
proof -
  obtain s w1 where s: "io_start lb rb w = (s, w1)" by fastforce
  then have at: "io_at s = IO_Connect" "length (io_readbuf s) = 1024" "io_fd_open s = (0 \<le> fd_sock (item w))"
    using assms(1) by (auto simp: io_start_def)
  show ?thesis
  proof (cases "0 \<le> fd_sock (item w)")
    case True
    with io_trace_connecting [OF at(1) _ at(2)] w s at(3) show ?thesis by (simp add: fs_def)
  next
    case False
    with io_trace_closed [OF at(1)] s at(3) show ?thesis by (simp add: fs_def)
  qed
qed

theorem io_trace_spec_witness:
  "\<exists>s'. io_trace [(False, None), (True, None), (True, Some (CHR ''a'')), (True, Some NUL), (True, Some LF),
      (True, Some (CHR ''b'')), (True, None), (True, Some LF)]
      (io_start (replicate 1024 NUL) (replicate 1024 NUL) sp_start)
    = Inr ([''a'' @ [NUL], [NUL]], s', upd_item (fold publish_item [''a'' @ [NUL], [NUL]]) sp_start)"
proof -
  have w: "wf_world (snd (io_start (replicate 1024 NUL) (replicate 1024 NUL) sp_start))"
    using wf_start by (simp add: io_start_world wf_idle_def)
  have fd: "0 \<le> fd_sock (item sp_start)" by (simp add: sp_demo_defs)
  have fr: "frame_of ''a'' = ''a'' @ [NUL]" "frame_of [] = [NUL]"
    by (simp_all add: frame_of_def tail_part_short)
  show ?thesis
    using io_trace_spec [OF _ w, of "[(False, None), (True, None), (True, Some (CHR ''a'')), (True, Some NUL),
        (True, Some LF), (True, Some (CHR ''b'')), (True, None), (True, Some LF)]"] fd
    by (simp add: received_def fr io_start_world)
qed

end
