(* ===== verification/Devmgr_Origin.thy ===== *)
theory Devmgr_Origin
  imports Devmgr_Peer Sockpush_Trace
begin

text \<open>
  Where the result of a call comes from. The lines that an exchange hears are those the I/O thread
  cuts out of the bytes the daemon sent; a result is the frame of a status line that the daemon sent
  after it acknowledged the command with the same session id.
\<close>

section \<open>An exchange behind the I/O thread\<close>

text \<open>
  The I/O thread is started in the world \<open>w\<close> on the line buffer \<open>lb\<close>, and \<open>inp\<close> is what its calls of
  \<open>connect\<close> and \<open>read\<close> return; the lines that appear around the reads of the client are, in order,
  the ones it publishes, up to some point of its run.
\<close>

definition served ::
    "env \<Rightarrow> byte list \<Rightarrow> 'a sp_world_scheme \<Rightarrow> (bool \<times> byte option) list \<Rightarrow> bool" where
  "served E lb w inp \<longleftrightarrow> wf_world (upd_item (sp_thread_init lb) w)
     \<and> (\<forall>i. ts_valid (ev_now (os_event (os_sp E) i)))
     \<and> (\<exists>rb L s' w'. length rb = 1024 \<and> io_trace inp (io_start lb rb w) = Inr (L, s', w')
          \<and> (\<forall>n. prefix (published E 0 n) L))"

text \<open>The lines of the daemon that reach the thread: its socket may not have been created.\<close>

definition daemon_lines :: "'a sp_world_scheme \<Rightarrow> (bool \<times> byte option) list \<Rightarrow> byte list list" where
  "daemon_lines w inp = fst (cut_lines [] (if 0 \<le> fd_sock (item w) then received inp else []))"

lemma daemon_lines_in_line: "list_all (list_all in_line) (daemon_lines w inp)"
  by (simp add: daemon_lines_def cut_lines_in_line)

lemma served_prefix:
  assumes "served E lb w inp"
  shows "prefix (published E 0 n) (map frame_of (daemon_lines w inp))"
proof -
  have st: "snd (io_start lb rb w) = upd_item (sp_thread_init lb) w" for rb by (simp add: io_start_def)
  from assms obtain rb L s' w' where "length rb = 1024" "wf_world (snd (io_start lb rb w))"
    and run: "io_trace inp (io_start lb rb w) = Inr (L, s', w')" "prefix (published E 0 n) L"
    unfolding served_def st by blast
  from io_trace_spec [OF this(1,2), of inp] run show ?thesis
    unfolding daemon_lines_def by (metis Pair_inject sum.inject(2))
qed

lemma published_split: "published E i (n + m) = published E i n @ published E (i + n) m"
  using upt_add_eq_append [of i "i + n" m] by (simp add: published_def add.assoc)

lemma served_subseq: "served E lb w inp \<Longrightarrow> subseq (published E i n) (map frame_of (daemon_lines w inp))"
proof -
  assume "served E lb w inp"
  from served_prefix [OF this, of "i + n"] obtain r
    where "map frame_of (daemon_lines w inp) = published E 0 i @ published E i n @ r"
    by (auto simp: prefix_def published_split)
  then show ?thesis by (simp add: list_emb_append2 list_emb_prefix)
qed

lemma served_frames: "served E lb w inp \<Longrightarrow> list_all frame_ok (ev_lines (os_event (os_sp E) i))"
proof -
  assume "served E lb w inp"
  from served_subseq [OF this, of i 1]
  have "set (ev_lines (os_event (os_sp E) i)) \<subseteq> frame_of ` set (daemon_lines w inp)"
    using set_nths_subset [of "map frame_of (daemon_lines w inp)"]
    by (fastforce simp: published_def subseq_conv_nths)
  moreover have "list_all (list_all in_line) (daemon_lines w inp)" by (rule daemon_lines_in_line)
  then have "\<forall>l \<in> set (daemon_lines w inp). frame_ok (frame_of l)"
    unfolding list_all_iff [of "list_all in_line"] using frame_of_in_line by blast
  ultimately show ?thesis unfolding list_all_iff by blast
qed

text \<open>What the client relies on, that every line is a terminated one, is what the thread guarantees.\<close>

lemma lines_ok: "list_all frame_ok (ev_lines ev) \<Longrightarrow>
    list_all frame_ok (ev_before ev) \<and> list_all frame_ok (ev_missed ev) \<and> pred_option frame_ok (ev_during ev)"
  by (cases "ev_during ev") (simp_all add: ev_lines_def)

lemma served_env_ok: "served E lb w inp \<Longrightarrow> env_ok (os_sp E)"
  using lines_ok [OF served_frames [of E lb w inp]] by (simp add: env_ok_def served_def)

lemma subseq_mapD: "subseq xs (map f ys) \<Longrightarrow> \<exists>zs. subseq zs ys \<and> xs = map f zs"
  by (metis nths_map subseq_conv_nths)

lemma served_heard:
  assumes "served E lb w inp" and "subseq hs (published E i n)"
  shows "\<exists>ls. subseq ls (daemon_lines w inp) \<and> hs = map frame_of ls"
  using subseq_mapD [OF subseq_order.trans [OF assms(2) served_subseq [OF assms(1)]]] .

section \<open>The origin of a result\<close>

text \<open>The message a line of the daemon carries to the client: a line of 1024 bytes or more is cut.\<close>

definition message_of :: "'j cjson \<Rightarrow> byte list \<Rightarrow> msg" where
  "message_of api l = decode api (tail_part l)"

lemma decode_frame [simp]: "decode api (butlast (frame_of l)) = message_of api l"
  by (simp add: frame_of_def message_of_def)

text \<open>The text \<open>t\<close> is the frame of a status line for the session that an earlier line acknowledged.\<close>

definition granted :: "'j cjson \<Rightarrow> byte list list \<Rightarrow> byte list \<Rightarrow> bool" where
  "granted api ls t \<longleftrightarrow> (\<exists>a b s. subseq [a, b] ls \<and> s \<noteq> 0
     \<and> message_of api a = M_ack 0 s \<and> message_of api b = M_rxstat s (Some t))"

lemma granted_subseq: "granted api ls t \<Longrightarrow> subseq ls ls' \<Longrightarrow> granted api ls' t"
  unfolding granted_def by (meson subseq_order.trans)

lemma granted_Cons: "granted api ls t \<Longrightarrow> granted api (l # ls) t"
  by (rule granted_subseq) auto

fun in_phase :: "'j cjson \<Rightarrow> phase \<Rightarrow> byte list list \<Rightarrow> byte list \<Rightarrow> bool" where
  "in_phase api Wait_ack ls t = False"
| "in_phase api (Wait_rx s) ls t = (\<exists>b \<in> set ls. message_of api b = M_rxstat s (Some t))"

lemma proto_Stay_cases: "proto p m = Stay q \<Longrightarrow> q = p \<or> (\<exists>s. s \<noteq> 0 \<and> p = Wait_ack \<and> m = M_ack 0 s \<and> q = Wait_rx s)"
  by (cases "(p, m)" rule: proto.cases) (auto split: if_splits option.splits)

lemma granted_here:
  "message_of api l = M_ack 0 s \<Longrightarrow> s \<noteq> 0 \<Longrightarrow> in_phase api (Wait_rx s) ls t \<Longrightarrow> granted api (l # ls) t"
  by (auto simp: granted_def subseq_singleton_left)

lemma dm_run_origin:
  assumes "dm_run api dstmax p g ins = Some (rc, k, Deliver t, n)" and "lines_heard ins = map frame_of ls"
  shows "granted api ls t \<or> in_phase api p ls t"
  using assms
proof (induction ins arbitrary: p g k n ls)
  case Nil
  then show ?case by simp
next
  case (Cons x ins)
  let ?v = "verdict_of api p (fst x)"
  note run = Cons.prems(1) [unfolded dm_run_step]
  obtain hs where split: "(fst x = None \<and> hs = ls) \<or> (\<exists>l. fst x = Some (frame_of l) \<and> ls = l # hs)"
    and rest: "lines_heard ins = map frame_of hs"
    using Cons.prems(2) by (cases "fst x"; cases ls) (auto simp: lines_heard_def)
  have up: "granted api hs t \<or> in_phase api p hs t \<Longrightarrow> granted api ls t \<or> in_phase api p ls t"
    using split granted_Cons by (cases p) auto
  show ?case
  proof (cases "next_of dstmax ?v (Some (g - snd x))")
    case (Finish e)
    with run have "?v = Deliver t" by simp
    then show ?thesis using split proto_Deliver by (fastforce simp: verdict_of_def)
  next
    case Again
    then obtain q where q: "?v = Stay q" by (auto simp: next_of_Again)
    with run Again Cons.IH [of q "g - snd x" _ _ hs] rest
    have "granted api hs t \<or> in_phase api q hs t" by (auto simp del: in_phase.simps)
    then show ?thesis
      using q split up granted_here proto_Stay_cases
      by (fastforce simp: verdict_of_def simp del: in_phase.simps)
  next
    case Resend
    with run Cons.IH [of Wait_ack "g - snd x" _ _ hs] rest have "granted api hs t" by auto
    with up show ?thesis by blast
  qed
qed

section \<open>A call behind the I/O thread\<close>

text \<open>What an exchange needs of its host, next to the lines that reach it.\<close>

definition host_ok :: "env \<Rightarrow> 'j cjson \<Rightarrow> cliopt_t \<Rightarrow> byte list \<Rightarrow> int \<Rightarrow> bool" where
  "host_ok E api c src inbytes \<longleftrightarrow>
     cjson_ok api \<and> opts E = Some c \<and> calls_return (os_sp E) \<and> writes_all (os_sp E)
     \<and> command_ok src inbytes"

text \<open>No line of the daemon is an acknowledgement with an error code that overflows.\<close>

definition mild_lines :: "'j cjson \<Rightarrow> byte list list \<Rightarrow> bool" where
  "mild_lines api ls \<longleftrightarrow> list_all (\<lambda>l. small_err (message_of api l)) ls"

lemma served_mild:
  assumes "served E lb v inp" and "mild_lines api (daemon_lines v inp)"
  shows "mild_env api (os_sp E)"
proof -
  have "mild api f" if f: "f \<in> set (ev_lines (os_event (os_sp E) i))" for f i
  proof -
    from served_subseq [OF assms(1), of i 1] f obtain l where "l \<in> set (daemon_lines v inp)" "f = frame_of l"
      using set_nths_subset [of "map frame_of (daemon_lines v inp)"]
      by (fastforce simp: published_def subseq_conv_nths)
    with assms(2) show ?thesis by (simp add: mild_def mild_lines_def list_all_iff)
  qed
  then show ?thesis by (simp add: mild_env_def list_all_iff)
qed

lemma served_exchange_ok:
  "served E lb v inp \<Longrightarrow> host_ok E api c src inbytes \<Longrightarrow> mild_lines api (daemon_lines v inp) \<Longrightarrow>
     exchange_ok E api c src inbytes"
  using served_env_ok served_mild by (auto simp: host_ok_def exchange_ok_def)

text \<open>C5: a result comes from the daemon, and from the own session: when the I/O thread serves the
  client from the bytes its socket receives, the call hears, in order and each at most once, lines
  the daemon sent; and when it returns a positive code, then the daemon sent a line that
  acknowledges the command without error and with a session id, after it a status line of the same
  session with a valid frame, with no time-out between the two, and the code and the destination
  are the length and the text of that frame, cut to the destination. The conditions: the JSON library is as documented; no line of the
  daemon is an acknowledgement with an error code beyond \<open>2 ^ 31 - 256\<close> in magnitude; the socket
  takes every byte; the reader can be allocated; each call that asks for the handle's mutex gets it
  (no deadlock of the threads); and the clock readings of the call succeed, none is before the
  first or 24 days later, and at most the first \<open>K\<close>, for some \<open>K\<close>, are within a millisecond of it.\<close>

theorem cmd_devmgr_result_origin:
  fixes v :: "'a sp_world_scheme"
  assumes srv: "served E lb v inp" and host: "host_ok E api c src inbytes"
    and mild: "mild_lines api (daemon_lines v inp)" and call: "call_ok E dth c dst dstmax w"
    and clk: "clock_ok E K c (n_clock w)" "clock_runs E (n_clock w) (n_clock w + readings K c)"
  shows "\<exists>ls ins rc dst' w'. subseq ls (daemon_lines v inp) \<and> lines_heard ins = map frame_of ls
    \<and> cmd_devmgr E api (Some dth) dst inbytes src dstmax w = Some (Inr (rc, dst', w'))
    \<and> out w' = out w @ concat (map (\<lambda>x. shown (verbose_on c) (timeout_ms c) (fst x)) ins)
    \<and> (0 < rc \<longrightarrow> (\<exists>t s i n. granted api ls t \<and> in_session api ins s i n \<and> n < length ins
         \<and> msg_at api ins n = Some (M_rxstat s (Some t))
         \<and> rc = int (min (length t) (dstmax - 1)) \<and> take (nat rc) dst' = take (nat rc) t
         \<and> length dst' = length dst))"
proof -
  from cmd_devmgr_any [OF served_exchange_ok [OF srv host mild] call clk] obtain ins rc k u w' where
    run: "dm_run api dstmax Wait_ack (call_budget c) ins = Some (rc, k, u, length ins)"
    and cmd: "cmd_devmgr E api (Some dth) dst inbytes src dstmax w = Some (Inr (rc, copied_to dstmax u dst, w'))"
    and o: "out w' = out w @ concat (map (\<lambda>x. shown (verbose_on c) (timeout_ms c) (fst x)) ins)"
    and h: "subseq (lines_heard ins) (published E (n_read w) (length ins))" by blast
  from served_heard [OF srv h] obtain ls where
    ls: "subseq ls (daemon_lines v inp)" "lines_heard ins = map frame_of ls" by blast
  have "\<exists>t s i n. granted api ls t \<and> in_session api ins s i n \<and> n < length ins
      \<and> msg_at api ins n = Some (M_rxstat s (Some t)) \<and> rc = int (min (length t) (dstmax - 1))
      \<and> take (nat rc) (copied_to dstmax u dst) = take (nat rc) t
      \<and> length (copied_to dstmax u dst) = length dst" if pos: "0 < rc"
  proof -
    from dm_run_positive [OF run pos] obtain t where u: "u = Deliver t" by blast
    from dm_run_session [OF run [unfolded u]] obtain n s i where
      n: "n < length ins" "rc = int (copied t dstmax)" "msg_at api ins n = Some (M_rxstat s (Some t))"
      "in_session api ins s i n" by auto
    have "granted api ls t" using dm_run_origin [OF run [unfolded u] ls(2)] by simp
    moreover have "dstmax \<le> length dst" "0 < dstmax" using call by (simp_all add: call_ok_def)
    ultimately show ?thesis using n u
      by (intro exI [of _ t] exI [of _ s] exI [of _ i] exI [of _ n]) (auto simp: copied_def min_def)
  qed
  with ls cmd o show ?thesis by blast
qed

section \<open>A daemon that sends three lines\<close>

lemma published_env_of:
  assumes "os_sp E = env_of evs"
  shows "published E 0 n = concat (map ev_lines (take n evs))"
proof (induction n)
  case 0
  then show ?case by (simp add: published_def)
next
  case (Suc n)
  have "published E 0 (Suc n) = published E 0 n @ ev_lines (os_event (os_sp E) n)"
    using published_split [of E 0 n 1] by (simp add: published_def)
  then show ?case using Suc assms
    by (simp add: env_of_def take_Suc_conv_app_nth) (simp add: ev_quiet_def ev_lines_def)
qed

lemma served_env_of:
  assumes sp: "os_sp E = env_of evs" and ok: "list_all event_ok evs"
    and w: "wf_world (upd_item (sp_thread_init lb) w)"
    and ls: "concat (map ev_lines evs) = map frame_of (daemon_lines w inp)"
  shows "served E lb w inp"
proof -
  have st: "snd (io_start lb (replicate 1024 NUL) w) = upd_item (sp_thread_init lb) w"
    by (simp add: io_start_def)
  obtain s' w' where run: "io_trace inp (io_start lb (replicate 1024 NUL) w)
      = Inr (map frame_of (daemon_lines w inp), s', w')"
    using io_trace_spec [OF length_replicate [of 1024 NUL], of lb w inp] w unfolding daemon_lines_def st by blast
  have "prefix (published E 0 n) (map frame_of (daemon_lines w inp))" for n
  proof -
    have "concat (map ev_lines evs) = concat (map ev_lines (take n evs)) @ concat (map ev_lines (drop n evs))"
      by (simp flip: concat_append map_append)
    then show ?thesis unfolding published_env_of [OF sp] ls [symmetric] by (rule prefixI)
  qed
  moreover have "ts_valid (ev_now (os_event (os_sp E) i))" for i
    using ok sp env_ok_env_of [OF ok] by (simp add: env_ok_def)
  ultimately show ?thesis unfolding served_def using w run length_replicate [of 1024 NUL] by blast
qed

definition fed_lines :: "byte list list" where
  "fed_lines = [''ack'', ''other'', ''rx'']"

definition fed_input :: "(bool \<times> byte option) list" where
  "fed_input = (False, None) # (True, None) # feed (concat (map (\<lambda>l. l @ [LF]) fed_lines))"

text \<open>The lines come one by one, each in a wait of the client, and the clock never fails.\<close>

definition fed_says :: "(byte list option \<times> int) list" where
  "fed_says = [said ''ack'' 0, said ''other'' 1, said ''rx'' 1]"

definition fed_env :: env where
  "fed_env = (play_env (demo_opts 1) fed_says)\<lparr>os_clock := steady_clock\<rparr>"

lemma fed_daemon_lines: "0 \<le> fd_sock (item w) \<Longrightarrow> daemon_lines w fed_input = fed_lines"
proof -
  have "received ((False, None) # (True, None) # feed bs) = bs" for bs
    by (simp add: received_def feed_def o_def takeWhile_eq_all_conv [THEN iffD2])
  moreover have "cut_lines [] (concat (map (\<lambda>l. l @ [LF]) fed_lines)) = (fed_lines, [])"
    using cut_lines_terminated [of fed_lines "[]"] by (simp add: fed_lines_def)
  moreover assume "0 \<le> fd_sock (item w)"
  ultimately show ?thesis by (simp add: daemon_lines_def fed_input_def)
qed

lemma fed_events: "os_sp (fed_env\<lparr>opts := x\<rparr>) = env_of (map play_event fed_says)"
  by (simp add: fed_env_def play_env_def)

lemma fed_env_served:
  assumes "wf_world (upd_item (sp_thread_init lb) w)" and "0 \<le> fd_sock (item w)"
  shows "served (fed_env\<lparr>opts := x\<rparr>) lb w fed_input"
proof (rule served_env_of [OF fed_events _ assms(1)])
  show "list_all event_ok (map play_event fed_says)"
    by (simp add: fed_says_def said_def play_event_def event_ok_def [of "ev_line f" for f])
       (simp add: ev_line_def ev_quiet_def ts_valid_def frame_ok_def)
  show "concat (map ev_lines (map play_event fed_says)) = map frame_of (daemon_lines w fed_input)"
    by (simp add: fed_daemon_lines assms(2) fed_lines_def fed_says_def said_def ev_lines_def
        frame_of_def tail_part_short)
qed

lemma fed_env_ok:
  "exchange_ok fed_env (jv_cjson demo_table) (demo_opts 1) ''ping'' 4"
  "host_ok fed_env (jv_cjson demo_table) (demo_opts 1) ''ping'' 4"
  "call_ok fed_env demo_dth (demo_opts 1) (replicate 8 NUL) 8 demo_world"
  "clock_ok fed_env 1 (demo_opts 1) k" "clock_runs fed_env k hi"
proof -
  have "exchange_ok (play_env (demo_opts 1) fed_says) (jv_cjson demo_table) (demo_opts 1) ''ping'' 4"
    by (rule demo_run(1)) (simp_all add: fed_says_def command_ok_def)
  then show "exchange_ok fed_env (jv_cjson demo_table) (demo_opts 1) ''ping'' 4"
    and "host_ok fed_env (jv_cjson demo_table) (demo_opts 1) ''ping'' 4"
    by (simp_all add: exchange_ok_def host_ok_def fed_env_def)
  have "call_ok (play_env (demo_opts 1) fed_says) demo_dth (demo_opts 1) (replicate 8 NUL) 8 demo_world"
    by (rule demo_call_ok) simp_all
  then show "call_ok fed_env demo_dth (demo_opts 1) (replicate 8 NUL) 8 demo_world"
    by (simp add: call_ok_def fed_env_def)
  show "clock_ok fed_env 1 (demo_opts 1) k"
    by (rule steady_clock_ok) (simp_all add: fed_env_def call_budget_def)
  show "clock_runs fed_env k hi" by (rule steady_clock_runs) (simp add: fed_env_def)
qed

text \<open>What the call computes with this daemon.\<close>

lemma fed_script: "script fed_env (to_size (timeout_ms (demo_opts 1))) (ms_after 0) 0 1 fed_says"
  using deadline_500
  by (simp add: fed_says_def plays_def fed_env_def play_env_def env_of_def said_def steady_clock_def
      elapsed_ms_between to_size_def Let_def)

lemma fed_dm_run:
  "dm_run (jv_cjson demo_table) 8 Wait_ack (call_budget (demo_opts 1)) fed_says = Some (5, 0, Deliver ''hello'', 3)"
  by (simp add: fed_says_def dm_run_step [of _ _ _ _ "said s ms" for s ms] verdict_said demo_decode
      call_budget_def copied_def)

lemma fed_call:
  "\<exists>w'. cmd_devmgr fed_env (jv_cjson demo_table) (Some demo_dth) (replicate 8 NUL) 4 ''ping'' 8 demo_world
      = Some (Inr (5, ''hello'' @ replicate 3 NUL, w'))"
proof -
  have ref: "os_clock fed_env (n_clock demo_world) = Some (ms_after 0)" by (simp add: fed_env_def steady_clock_def)
  have sc: "script fed_env (to_size (timeout_ms (demo_opts 1))) (ms_after 0) (n_read demo_world)
      (Suc (n_clock demo_world)) fed_says" using fed_script by simp
  from cmd_devmgr_run [OF fed_env_ok(1,3) ref sc fed_dm_run] show ?thesis
    by (auto simp: copied_def numeral_nat)
qed

lemma fed_messages:
  "l \<in> set fed_lines \<Longrightarrow> message_of (jv_cjson demo_table) l =
     (if l = ''ack'' then M_ack 0 7 else if l = ''rx'' then M_rxstat 7 (Some ''hello'') else M_rxstat 8 (Some ''no''))"
  by (auto simp: fed_lines_def message_of_def tail_part_short demo_decode)

lemma fed_mild [simp]: "mild_lines (jv_cjson demo_table) fed_lines"
  by (simp add: mild_lines_def list_all_iff fed_messages small_err_def)

lemma fed_granted:
  assumes "granted (jv_cjson demo_table) ls t" and "subseq ls fed_lines"
  shows "t = ''hello''"
proof -
  from granted_subseq [OF assms] obtain a b s where "subseq [a, b] fed_lines"
    and m: "message_of (jv_cjson demo_table) a = M_ack 0 s" "message_of (jv_cjson demo_table) b = M_rxstat s (Some t)"
    by (auto simp: granted_def)
  then have "a \<in> set fed_lines" "b \<in> set fed_lines"
    using list_emb_set [of "(=)" "[a, b]" fed_lines] by auto
  with m show ?thesis by (auto simp: fed_messages split: if_splits)
qed

theorem cmd_devmgr_result_origin_witness:
  "\<exists>ls t dst' w'. cmd_devmgr fed_env (jv_cjson demo_table) (Some demo_dth) (replicate 8 NUL) 4 ''ping'' 8 demo_world
      = Some (Inr (5, dst', w')) \<and> subseq ls fed_lines \<and> granted (jv_cjson demo_table) ls t
    \<and> length t = 5 \<and> take 5 dst' = t"
proof -
  have sp: "wf_world (upd_item (sp_thread_init (replicate 1024 NUL)) sp_start)" "0 \<le> fd_sock (item sp_start)"
    using wf_start io_start_world by (simp_all add: io_start_def wf_idle_def) (simp_all add: sp_demo_defs)
  have srv: "served fed_env (replicate 1024 NUL) sp_start fed_input"
    using fed_env_served [OF sp, of "opts fed_env"] by simp
  have mild: "mild_lines (jv_cjson demo_table) (daemon_lines sp_start fed_input)"
    by (simp add: fed_daemon_lines [OF sp(2)])
  obtain w' where c: "cmd_devmgr fed_env (jv_cjson demo_table) (Some demo_dth) (replicate 8 NUL) 4 ''ping'' 8
      demo_world = Some (Inr (5, ''hello'' @ replicate 3 NUL, w'))" using fed_call by blast
  from cmd_devmgr_result_origin [OF srv fed_env_ok(2) mild fed_env_ok(3-5)] obtain ls t rc dst' w2 where
    s: "subseq ls fed_lines" and cmd: "cmd_devmgr fed_env (jv_cjson demo_table) (Some demo_dth) (replicate 8 NUL) 4
      ''ping'' 8 demo_world = Some (Inr (rc, dst', w2))"
    and g: "0 < rc \<longrightarrow> (\<exists>t. granted (jv_cjson demo_table) ls t \<and> rc = int (min (length t) (8 - 1))
      \<and> take (nat rc) dst' = take (nat rc) t)"
    by (fastforce simp: fed_daemon_lines [OF sp(2)])
  from c cmd have rc: "rc = 5" by simp
  with g obtain t where t: "granted (jv_cjson demo_table) ls t" "5 = min (length t) 7" "take 5 dst' = take 5 t"
    by auto
  then have "length t = 5" by (simp add: min_def split: if_splits)
  moreover from this t(3) have "take 5 dst' = t" by simp
  ultimately show ?thesis using t(1) s cmd rc by blast
qed

end
