(* ===== verification/Main_Daemon.thy ===== *)
theory Main_Daemon
  imports Main_Exchange Devmgr_Origin
begin

text \<open>
  The program between its two peers: from the bytes that the daemon sends, through the I/O thread,
  the shared buffer, the exchange and the terminal, to what the user reads.
\<close>

section \<open>The thread of the program\<close>

text \<open>The thread that \<open>main\<close> starts on the handle it has opened serves the client from the input
  \<open>inp\<close>, and the lines the daemon has sent.\<close>

definition program_served ::
    "main_env \<Rightarrow> byte list list \<Rightarrow> env \<Rightarrow> world \<Rightarrow> (bool \<times> byte option) list \<Rightarrow> bool" where
  "program_served P argv E w inp \<longleftrightarrow>
     (\<exists>sp live. sp_open (p_open P) False (Some (socket_filename (p_args P (formal_args argv)))) 0 {}
        = Inr (0, Some sp, live) \<and> served E (p_linebuf P) (w\<lparr>item := sp\<rparr>) inp)"

definition program_lines :: "main_env \<Rightarrow> (bool \<times> byte option) list \<Rightarrow> byte list list" where
  "program_lines P inp = fst (cut_lines [] (if 0 \<le> socket_fd (p_open P) then received inp else []))"

lemma sp_open_fd:
  "sp_open e hn path flags live = Inr (0, Some sp, live') \<Longrightarrow> fd_sock sp = socket_fd e"
  by (auto simp: sp_open_def sp_open_ERR_def Let_def sp_calloc_def split: if_splits option.splits)

lemma program_servedE:
  assumes "program_served P argv E w inp"
  obtains v :: world where "served E (p_linebuf P) v inp" "daemon_lines v inp = program_lines P inp"
  using assms sp_open_fd
  by (auto simp: program_served_def program_lines_def daemon_lines_def)

section \<open>What the user reads\<close>

lemma shown_quiet: "concat (map (\<lambda>x. shown False t (fst x)) ins) = concat (map (\<lambda>f. butlast f @ [LF]) (lines_heard ins))"
proof (induction ins)
  case Nil
  then show ?case by (simp add: lines_heard_def)
next
  case (Cons x ins)
  then show ?case by (cases "fst x") (simp_all add: lines_heard_def shown_def)
qed

lemma session_out_quiet:
  assumes "\<not> verbose_on c" and "lines_heard ins = map frame_of ls"
  shows "session_out c s ins rc = concat (map (\<lambda>l. tail_part l @ [LF]) ls)
    @ (if rc < 0 then error_reply rc @ failed_line rc else [])"
  using assms by (simp add: session_out_def shown_quiet frame_of_def o_def)

lemma proto_Stop_zero: "proto p msg = Stop e \<Longrightarrow> 0 \<le> e \<Longrightarrow> e = 0 \<and> msg = M_ack 0 0"
  by (induction p msg rule: proto.induct) (auto split: if_splits option.splits)

text \<open>A code that is not negative: of a delivered frame, or of an acknowledgement without a session.\<close>

lemma dm_run_success:
  "dm_run api dstmax p g ins = Some (rc, k, v, n) \<Longrightarrow> 0 \<le> rc \<Longrightarrow>
     (\<exists>t. v = Deliver t \<and> rc = int (copied t dstmax))
     \<or> rc = 0 \<and> (\<exists>f \<in> set (lines_heard ins). decode api (butlast f) = M_ack 0 0)"
proof (induction ins arbitrary: p g k n)
  case (Cons x ins)
  let ?v = "verdict_of api p (fst x)"
  have sub: "set (lines_heard ins) \<subseteq> set (lines_heard (x # ins))" by (simp add: lines_heard_def)
  show ?case
  proof (cases "next_of dstmax ?v (Some (g - snd x))")
    case (Finish e)
    with Cons.prems have v: "v = ?v" "rc = e" by (simp_all add: dm_run_step)
    show ?thesis
    proof (cases ?v)
      case (Stop y)
      then obtain f where f: "fst x = Some f" "proto p (decode api (butlast f)) = Stop y"
        by (cases "fst x") (simp_all add: verdict_of_def)
      from Finish Stop v Cons.prems(2) have "rc = y" "0 \<le> y" by simp_all
      with proto_Stop_zero [OF f(2)] f(1) show ?thesis by (simp add: lines_heard_def)
    qed (use Finish v Cons.prems(2) in \<open>auto split: if_splits\<close>)
  next
    case Again
    with Cons.prems(1) obtain q n0 where "dm_run api dstmax q (g - snd x) ins = Some (rc, k, v, n0)"
      by (auto simp: dm_run_step)
    from Cons.IH [OF this Cons.prems(2)] sub show ?thesis by blast
  next
    case Resend
    with Cons.prems(1) obtain k0 n0 where "dm_run api dstmax Wait_ack (g - snd x) ins = Some (rc, k0, v, n0)"
      by (auto simp: dm_run_step)
    from Cons.IH [OF this Cons.prems(2)] sub show ?thesis by blast
  qed
qed simp


section \<open>A session with the daemon of three lines\<close>

definition fed_session :: main_env where
  "fed_session = demo_session\<lparr>p_term := demo_term fed_env\<rparr>"

definition fed_argv :: "byte list list" where
  "fed_argv = [''ottercat'', ''/tmp/otter'']"

definition fed_host_env :: env where
  "fed_host_env = fed_env\<lparr>opts := Some (main_opts fed_session fed_argv)\<rparr>"

lemma fed_opts: "main_opts fed_session fed_argv = main_opts demo_session fed_argv"
  "\<not> verbose_on (main_opts fed_session fed_argv)"
  using demo_session_ok(4) by (simp_all add: fed_session_def with_term)

lemma fed_host: "session_host fed_session fed_argv fed_host_env (jv_cjson demo_table) ''ping'' demo_world"
proof (rule demo_session_host)
  show "host_ready fed_host_env (jv_cjson demo_table) demo_world"
    using fed_env_ok(2,3) by (simp add: host_ready_def host_ok_def call_ok_def fed_host_env_def)
  show "t_env (p_term fed_session) = fed_env" "inline_args fed_argv = []"
    by (simp_all add: fed_session_def fed_argv_def inline_args_def formal_args_def)
  show "fed_host_env = fed_env\<lparr>opts := Some (main_opts demo_session fed_argv)\<rparr>"
    by (simp add: fed_host_env_def fed_opts(1))
  show "fed_session = demo_session\<lparr>p_term := demo_term fed_env\<rparr>" by (rule fed_session_def)
qed

lemma fed_clock: "clock_ok fed_host_env 1 (main_opts fed_session fed_argv) k" "clock_runs fed_host_env k hi"
proof -
  have c: "os_clock fed_host_env = steady_clock" by (simp add: fed_host_env_def fed_env_def)
  show "clock_ok fed_host_env 1 (main_opts fed_session fed_argv) k" by (rule steady_clock_ok [OF c]) simp
  show "clock_runs fed_host_env k hi" by (rule steady_clock_runs [OF c])
qed

lemma fed_served: "program_served fed_session fed_argv fed_host_env demo_world fed_input"
  "program_lines fed_session fed_input = fed_lines"
proof -
  let ?P = fed_session
  have "opens ?P fed_argv" using demo_session_ok(2) by (simp add: fed_session_def with_term)
  then obtain sp live where op: "sp_open (p_open ?P) False (Some (socket_filename (p_args ?P (formal_args fed_argv)))) 0 {}
      = Inr (0, Some sp, live)" by (rule opens_sp)
  have fd: "socket_fd (p_open ?P) = 3" by (simp add: fed_session_def demo_session_def open_env_demo_def)
  have "length (p_linebuf ?P) = 1024" by (simp add: fed_session_def demo_session_def)
  note it = sp_open_item [OF op this]
  have "wf_world (upd_item (sp_thread_init (p_linebuf ?P)) (demo_world\<lparr>item := sp\<rparr>))"
    using it(1,2) demo_world_cells by (simp add: wf_world_def)
  then have "served fed_host_env (p_linebuf ?P) (demo_world\<lparr>item := sp\<rparr>) fed_input"
    unfolding fed_host_env_def using sp_open_fd [OF op] fd by (intro fed_env_served) simp_all
  with op show "program_served ?P fed_argv fed_host_env demo_world fed_input"
    unfolding program_served_def by blast
  show "program_lines ?P fed_input = fed_lines"
    using fed_daemon_lines [of "demo_world\<lparr>item := sp\<rparr>"] sp_open_fd [OF op] fd
    by (simp add: program_lines_def daemon_lines_def)
qed

text \<open>What the program computes: the three lines are shown, and there is no error reply.\<close>

lemma fed_main:
  "\<exists>w'. main fed_session (jv_cjson demo_table) fed_argv demo_world = Some (Inr (0, {}, w'))
    \<and> sock_out w' = ''ping'' @ [LF] \<and> out w' = ''ack'' @ [LF] @ ''other'' @ [LF] @ ''rx'' @ [LF]"
proof -
  have "mild_env (jv_cjson demo_table) (os_sp fed_host_env)" "env_ok (os_sp fed_host_env)"
    using fed_env_ok(1) by (simp_all add: exchange_ok_def fed_host_env_def)
  with fed_host have rdy: "session_ready fed_session fed_argv fed_host_env (jv_cjson demo_table) ''ping'' demo_world"
    by (simp add: session_ready_def)
  from rdy obtain sp live where
    op: "sp_open (p_open fed_session) False (Some (socket_filename (p_args fed_session (formal_args fed_argv)))) 0 {}
      = Inr (0, Some sp, live)" by (auto simp: session_ready_defs elim: opens_sp)
  note l = session_line [OF rdy op]
  have ref: "os_clock fed_host_env (n_clock demo_world) = Some (ms_after 0)"
    by (simp add: fed_host_env_def fed_env_def steady_clock_def)
  have sc: "script fed_host_env (to_size (timeout_ms (main_opts fed_session fed_argv))) (ms_after 0)
      (n_read demo_world) (Suc (n_clock demo_world)) fed_says"
    using fed_script by (simp add: fed_host_env_def script_opts)
  have run: "dm_run (jv_cjson demo_table) 1024 Wait_ack (call_budget (main_opts fed_session fed_argv)) fed_says
      = Some (5, 0, Deliver ''hello'', 3)"
    by (simp add: fed_says_def dm_run_step [of _ _ _ _ "said s ms" for s ms] verdict_said demo_decode copied_def)
  from line_by_script [OF l(1) _ _ run, unfolded l(2-6), OF ref sc] session_main [OF rdy op]
  obtain w' where "main fed_session (jv_cjson demo_table) fed_argv demo_world = Some (Inr (0, {}, w'))"
    "session_effect (main_opts fed_session fed_argv) ''ping'' (take 3 fed_says) 5 0 demo_world w'" by blast
  then show ?thesis using fed_opts(2)
    by (auto simp: session_effect_def session_out_def fed_says_def shown_def said_def numeral_nat)
qed


end
